theory Spec2Isabelle
  imports Main "HOL-Library.Sublist" "HOL-Library.List_Lexorder"
begin

section \<open>JavaScript values and string primitives\<close>

text \<open>
  The repository is a browser application (a NoteManager over an IndexedDB-backed
  StorageManager, and a SearchManager). Dynamically typed inputs are values of
  \<open>jsval\<close>; JavaScript strings are modelled by \<open>string\<close>, so a code unit is an 8-bit
  character. Timestamps are the millisecond time values of Date objects.
\<close>

datatype jsval = JUndefined | JNull | JBool bool | JNum int | JStr string | JArr "jsval list"

fun truthy :: "jsval \<Rightarrow> bool" where
  "truthy JUndefined = False"
| "truthy JNull = False"
| "truthy (JBool b) = b"
| "truthy (JNum n) = (n \<noteq> 0)"
| "truthy (JStr s) = (s \<noteq> [])"
| "truthy (JArr xs) = True"

text \<open>\<open>a || b\<close>\<close>

definition js_or :: "jsval \<Rightarrow> jsval \<Rightarrow> jsval" where
  "js_or a b = (if truthy a then a else b)"

text \<open>White space and line terminators stripped by \<open>String.prototype.trim\<close>
  (tab, LF, VT, FF, CR, space, no-break space).\<close>

definition is_ws :: "char \<Rightarrow> bool" where
  "is_ws c = (c \<in> set [CHR 0x09, CHR 0x0A, CHR 0x0B, CHR 0x0C, CHR 0x0D, CHR 0x20, CHR 0xA0])"

definition trim :: "string \<Rightarrow> string" where
  "trim s = rev (dropWhile is_ws (rev (dropWhile is_ws s)))"

text \<open>\<open>s.substring(0, n)\<close>\<close>

definition substring0 :: "nat \<Rightarrow> string \<Rightarrow> string" where
  "substring0 n s = take n s"

text \<open>\<open>toLowerCase\<close> on 8-bit code units: A-Z and the Latin-1 capitals.\<close>

definition lower_char :: "char \<Rightarrow> char" where
  "lower_char c =
     (let n = (of_char c :: nat)
      in if (65 \<le> n \<and> n \<le> 90) \<or> (192 \<le> n \<and> n \<le> 222 \<and> n \<noteq> 215)
         then char_of (n + 32) else c)"

definition toLowerCase :: "string \<Rightarrow> string" where
  "toLowerCase s = map lower_char s"

text \<open>\<open>s.includes(t)\<close>: \<open>t\<close> occurs in \<open>s\<close> as a contiguous substring.\<close>

fun str_includes :: "string \<Rightarrow> string \<Rightarrow> bool" where
  "str_includes [] t = (t = [])"
| "str_includes (c # cs) t = (prefix t (c # cs) \<or> str_includes cs t)"

text \<open>\<open>arr.join(' ')\<close>\<close>

fun join_sp :: "string list \<Rightarrow> string" where
  "join_sp [] = []"
| "join_sp [x] = x"
| "join_sp (x # y # ys) = x @ '' '' @ join_sp (y # ys)"

text \<open>\<open>arr.indexOf(x)\<close>, \<open>-1\<close> when absent.\<close>

fun indexOf :: "'a list \<Rightarrow> 'a \<Rightarrow> int" where
  "indexOf [] x = -1"
| "indexOf (y # ys) x = (if y = x then 0 else (let i = indexOf ys x in if i < 0 then -1 else i + 1))"

section \<open>Entity validator (NoteManager.validate*, sanitize*)\<close>

definition maxNoteSize :: nat where "maxNoteSize = 1024 * 1024"
definition maxTitleLength :: nat where "maxTitleLength = 500"
definition maxTagLength :: nat where "maxTagLength = 50"
definition maxTagsPerNote :: nat where "maxTagsPerNote = 20"

definition sanitizeTitle :: "jsval \<Rightarrow> string" where
  "sanitizeTitle title = (case title of JStr s \<Rightarrow> substring0 maxTitleLength (trim s) | _ \<Rightarrow> [])"

definition sanitizeContent :: "jsval \<Rightarrow> string" where
  "sanitizeContent content =
     (case content of
        JStr s \<Rightarrow> if length s > maxNoteSize then substring0 maxNoteSize s else s
      | _ \<Rightarrow> [])"

definition is_hex :: "char \<Rightarrow> bool" where
  "is_hex c = (c \<in> set ''0123456789ABCDEFabcdef'')"

text \<open>The regular expression \<open>/^#[0-9A-Fa-f]{6}$/\<close>.\<close>

definition hexColorRegex :: "string \<Rightarrow> bool" where
  "hexColorRegex s = (case s of c # cs \<Rightarrow> c = CHR ''#'' \<and> length cs = 6 \<and> list_all is_hex cs | [] \<Rightarrow> False)"

definition validateColor :: "jsval \<Rightarrow> string" where
  "validateColor color =
     (case color of JStr s \<Rightarrow> if hexColorRegex s then s else ''#ffffff'' | _ \<Rightarrow> ''#ffffff'')"

text \<open>The string elements of a tag array that are not blank.\<close>

fun tag_strings :: "jsval list \<Rightarrow> string list" where
  "tag_strings [] = []"
| "tag_strings (JStr s # vs) = (if length (trim s) > 0 then s # tag_strings vs else tag_strings vs)"
| "tag_strings (v # vs) = tag_strings vs"

text \<open>\<open>arr.filter((tag, index, arr) => arr.indexOf(tag) === index)\<close>\<close>

definition first_occurrences :: "'a list \<Rightarrow> 'a list" where
  "first_occurrences arr =
     map fst (filter (\<lambda>(tag, index). indexOf arr tag = int index) (zip arr [0..<length arr]))"

definition validateTags :: "jsval \<Rightarrow> string list" where
  "validateTags tags =
     (case tags of
        JArr vs \<Rightarrow>
          first_occurrences
            (take maxTagsPerNote
               (map (\<lambda>tag. substring0 maxTagLength (trim tag)) (tag_strings vs)))
      | _ \<Rightarrow> [])"

text \<open>
  The clock. A run of synchronous code reads it with \<open>new Date()\<close> in up to three
  places, one after the other: \<open>now 0\<close> for a creation time, \<open>now 1\<close> for a
  modification time (in createNote, in createFolder, and as the defaults of the
  validators), and \<open>now 2\<close> for the \<open>modifiedAt\<close> that updateNote sets after
  validating.
\<close>

type_synonym clock = "nat \<Rightarrow> int"

text \<open>
  A note object as it reaches the validator: any field may hold a value of the wrong type.
  A timestamp field is \<open>None\<close> when absent (falsy), otherwise the time value of the
  valid Date built from it; a value from which \<open>new Date\<close> builds no valid Date is not
  represented. \<open>rawMetadata = None\<close> stands for a missing metadata block, and the
  numeric metadata fields hold integers that \<open>parseInt\<close> reads back unchanged.
\<close>

record raw_metadata =
  rawWordCount :: "int option"
  rawAttachments :: jsval
  rawLinks :: jsval
  rawVersion :: "int option"

record raw_note =
  rawId :: jsval
  rawTitle :: jsval
  rawContent :: jsval
  rawColor :: jsval
  rawTags :: jsval
  rawFolderId :: jsval
  rawIsFavorite :: jsval
  rawIsShared :: jsval
  rawCreatedAt :: "int option"
  rawModifiedAt :: "int option"
  rawIsDirty :: jsval
  rawMetadata :: "raw_metadata option"

text \<open>A validated note, as held in the in-memory cache \<open>this.notes\<close>.\<close>

record metadata =
  wordCount :: int
  attachments :: "jsval list"
  links :: "jsval list"
  version :: int

record note_rec =
  noteId :: string
  title :: string
  content :: string
  color :: string
  tags :: "string list"
  folderId :: "string option"
  isFavorite :: bool
  isShared :: bool
  createdAt :: int
  modifiedAt :: int
  isDirty :: bool
  metadata :: metadata

text \<open>A folder object; the cache \<open>this.folders\<close> holds folders that were never validated
  (createFolder), so every field stays dynamically typed.\<close>

record folder =
  fId :: jsval
  name :: jsval
  parentId :: jsval
  fColor :: jsval
  fCreatedAt :: "int option"
  fModifiedAt :: "int option"

text \<open>\<open>this.folders.has(key)\<close>\<close>

definition folders_has :: "folder list \<Rightarrow> jsval \<Rightarrow> bool" where
  "folders_has fs key = (key \<in> set (map fId fs))"

definition validateFolderId :: "folder list \<Rightarrow> jsval \<Rightarrow> string option" where
  "validateFolderId fs fid =
     (if \<not> truthy fid then None
      else (case fid of
              JStr s \<Rightarrow> if folders_has fs (JStr s) then Some s else None
            | _ \<Rightarrow> None))"

definition array_or_empty :: "jsval \<Rightarrow> jsval list" where
  "array_or_empty v = (case v of JArr xs \<Rightarrow> xs | _ \<Rightarrow> [])"

text \<open>The metadata block of validateNote: \<open>Math.max(0, parseInt(m?.wordCount || 0))\<close>,
  \<open>Array.isArray(...) ? ... : []\<close>, \<open>Math.max(1, parseInt(m?.version || 1))\<close>.\<close>

definition validateMetadata :: "raw_metadata option \<Rightarrow> metadata" where
  "validateMetadata m =
     \<lparr> wordCount = max 0 (case m of None \<Rightarrow> 0
                          | Some r \<Rightarrow> (case rawWordCount r of None \<Rightarrow> 0 | Some w \<Rightarrow> if w = 0 then 0 else w)),
       attachments = (case m of None \<Rightarrow> [] | Some r \<Rightarrow> array_or_empty (rawAttachments r)),
       links = (case m of None \<Rightarrow> [] | Some r \<Rightarrow> array_or_empty (rawLinks r)),
       version = max 1 (case m of None \<Rightarrow> 1
                        | Some r \<Rightarrow> (case rawVersion r of None \<Rightarrow> 1 | Some v \<Rightarrow> if v = 0 then 1 else v)) \<rparr>"

text \<open>
  \<open>validateNote(note, throwOnError)\<close>. The argument is \<open>None\<close> when it is not an object.
  The result is \<open>Inl msg\<close> for a raised Error, \<open>Inr None\<close> for \<open>null\<close>, and
  \<open>Inr (Some n)\<close> for the validated copy. A missing timestamp is read from the clock.
\<close>

definition validateNote :: "clock \<Rightarrow> folder list \<Rightarrow> raw_note option \<Rightarrow> bool \<Rightarrow> string + note_rec option" where
  "validateNote now fs arg throwOnError =
     (case arg of
        None \<Rightarrow> if throwOnError then Inl ''Note must be an object'' else Inr None
      | Some r \<Rightarrow>
          (case rawId r of
             JStr i \<Rightarrow>
               if i = [] then
                 (if throwOnError then Inl ''Note ID is required and must be a string'' else Inr None)
               else
                 Inr (Some
                   \<lparr> noteId = i,
                     title = sanitizeTitle (js_or (rawTitle r) (JStr [])),
                     content = sanitizeContent (js_or (rawContent r) (JStr [])),
                     color = validateColor (js_or (rawColor r) (JStr ''#ffffff'')),
                     tags = validateTags (js_or (rawTags r) (JArr [])),
                     folderId = validateFolderId fs (rawFolderId r),
                     isFavorite = truthy (rawIsFavorite r),
                     isShared = truthy (rawIsShared r),
                     createdAt = (case rawCreatedAt r of Some t \<Rightarrow> t | None \<Rightarrow> now 0),
                     modifiedAt = (case rawModifiedAt r of Some t \<Rightarrow> t | None \<Rightarrow> now 1),
                     isDirty = truthy (rawIsDirty r),
                     metadata = validateMetadata (rawMetadata r) \<rparr>)
           | _ \<Rightarrow> if throwOnError then Inl ''Note ID is required and must be a string'' else Inr None))"

text \<open>
  \<open>validateFolder(folder, throwOnError)\<close>, with the same conventions.
\<close>

definition validateFolder :: "clock \<Rightarrow> folder option \<Rightarrow> bool \<Rightarrow> string + folder option" where
  "validateFolder now arg throwOnError =
     (case arg of
        None \<Rightarrow> if throwOnError then Inl ''Folder must be an object'' else Inr None
      | Some f \<Rightarrow>
          (case fId f of
             JStr i \<Rightarrow>
               if i = [] then (if throwOnError then Inl ''Folder ID is required'' else Inr None)
               else
                 (case name f of
                    JStr nm \<Rightarrow>
                      if nm = [] \<or> length (trim nm) = 0 then
                        (if throwOnError then Inl ''Folder name is required'' else Inr None)
                      else
                        Inr (Some
                          \<lparr> fId = JStr i,
                            name = JStr (substring0 maxTitleLength (trim nm)),
                            parentId = js_or (parentId f) JNull,
                            fColor = JStr (validateColor (js_or (fColor f) (JStr ''#ffffff''))),
                            fCreatedAt = Some (case fCreatedAt f of Some t \<Rightarrow> t | None \<Rightarrow> now 0),
                            fModifiedAt = Some (case fModifiedAt f of Some t \<Rightarrow> t | None \<Rightarrow> now 1) \<rparr>)
                  | _ \<Rightarrow> if throwOnError then Inl ''Folder name is required'' else Inr None)
           | _ \<Rightarrow> if throwOnError then Inl ''Folder ID is required'' else Inr None))"

text \<open>A cached note seen again as validator input (saveNotes and updateNote re-validate it).\<close>

definition raw_of :: "note_rec \<Rightarrow> raw_note" where
  "raw_of n =
     \<lparr> rawId = JStr (noteId n), rawTitle = JStr (title n), rawContent = JStr (content n),
       rawColor = JStr (color n), rawTags = JArr (map JStr (tags n)),
       rawFolderId = (case folderId n of None \<Rightarrow> JNull | Some f \<Rightarrow> JStr f),
       rawIsFavorite = JBool (isFavorite n), rawIsShared = JBool (isShared n),
       rawCreatedAt = Some (createdAt n), rawModifiedAt = Some (modifiedAt n),
       rawIsDirty = JBool (isDirty n),
       rawMetadata = Some \<lparr> rawWordCount = Some (wordCount (metadata n)),
                            rawAttachments = JArr (attachments (metadata n)),
                            rawLinks = JArr (links (metadata n)),
                            rawVersion = Some (version (metadata n)) \<rparr> \<rparr>"

section \<open>Persistent store (StorageManager over IndexedDB)\<close>

text \<open>
  The two object stores the repository uses, each keyed by the \<open>id\<close> property of the
  stored object. \<open>put\<close> overwrites the record with the same key or adds one; the order in
  which \<open>getAll\<close> lists the records plays no role below.
\<close>

record database =
  notesStore :: "raw_note list"
  foldersStore :: "folder list"

definition put_note :: "raw_note \<Rightarrow> raw_note list \<Rightarrow> raw_note list" where
  "put_note r rs =
     (if rawId r \<in> set (map rawId rs) then map (\<lambda>x. if rawId x = rawId r then r else x) rs
      else rs @ [r])"

definition put_folder :: "folder \<Rightarrow> folder list \<Rightarrow> folder list" where
  "put_folder f fs =
     (if fId f \<in> set (map fId fs) then map (\<lambda>x. if fId x = fId f then f else x) fs
      else fs @ [f])"

text \<open>
  A transaction opened by the StorageManager: \<open>saveNotes(data)\<close>, \<open>deleteNote(id)\<close> and
  \<open>loadNotes()\<close>.
\<close>

datatype txn = SaveTxn "raw_note list" "folder list" | DeleteTxn string | LoadTxn

text \<open>What a settled promise carries: \<open>undefined\<close>, a boolean, the loaded data, or an
  Error with its message.\<close>

datatype reply = Ok | Val bool | Data "raw_note list" "folder list" | Err string

text \<open>
  A transaction either fails with the message of the failed request, and is rolled back
  as a whole, or commits all of its writes.
\<close>

fun exec_txn :: "string option \<Rightarrow> txn \<Rightarrow> database \<Rightarrow> reply \<times> database" where
  "exec_txn (Some msg) t d = (Err msg, d)"
| "exec_txn None (SaveTxn ns fs) d =
     (Ok, d\<lparr> notesStore := fold put_note ns (notesStore d),
             foldersStore := fold put_folder fs (foldersStore d) \<rparr>)"
| "exec_txn None (DeleteTxn i) d =
     (Ok, d\<lparr> notesStore := filter (\<lambda>r. rawId r \<noteq> JStr i) (notesStore d) \<rparr>)"
| "exec_txn None LoadTxn d = (Data (notesStore d) (foldersStore d), d)"

section \<open>Note/folder repository (NoteManager)\<close>

text \<open>
  Execution is single-threaded and cooperative. An async function runs until its first
  \<open>await\<close>; what remains of it is a frame that is resumed when the awaited promise settles.
  A suspended call chain is a stack of frames, innermost first. \<open>Caller l\<close> is the code
  that invoked the repository and awaits the outcome; its resumption records the outcome
  under the label \<open>l\<close>.
\<close>

datatype frame =
    SaveNotesK
  | LoadNotesK
  | UpdateNoteK
  | DeleteStoreK string
  | DeleteSaveK
  | SafeExecuteK string
  | DeleteNoteK string
  | Caller string

text \<open>
  The repository together with its storage manager and the database behind it.
  \<open>notesMap\<close> and \<open>foldersMap\<close> list the values of the two Maps in insertion order; every
  entry is stored under its own id. \<open>micro\<close> holds the continuations of awaits on promises
  that are already settled, \<open>queue\<close> the open transactions in the order of their creation,
  each with the call chain that awaits it. \<open>settled\<close> records the outcomes delivered to
  callers.
\<close>

record repo =
  notesMap :: "note_rec list"
  foldersMap :: "folder list"
  saveInProgress :: bool
  loadInProgress :: bool
  storageManager :: bool
  dbOpen :: bool
  store :: database
  micro :: "(reply \<times> frame list) list"
  queue :: "(txn \<times> frame list) list"
  settled :: "(string \<times> reply) list"

text \<open>\<open>this.notes.has(key)\<close>, \<open>this.notes.set(n.id, n)\<close>, \<open>this.notes.delete(id)\<close>\<close>

definition notes_has :: "note_rec list \<Rightarrow> jsval \<Rightarrow> bool" where
  "notes_has ns key = (case key of JStr s \<Rightarrow> s \<in> set (map noteId ns) | _ \<Rightarrow> False)"

definition notes_set :: "note_rec \<Rightarrow> note_rec list \<Rightarrow> note_rec list" where
  "notes_set n ns =
     (if noteId n \<in> set (map noteId ns) then map (\<lambda>x. if noteId x = noteId n then n else x) ns
      else ns @ [n])"

definition notes_delete :: "string \<Rightarrow> note_rec list \<Rightarrow> note_rec list" where
  "notes_delete i ns = filter (\<lambda>x. noteId x \<noteq> i) ns"

definition folders_set :: "folder \<Rightarrow> folder list \<Rightarrow> folder list" where
  "folders_set f fs = put_folder f fs"

definition folders_delete :: "jsval \<Rightarrow> folder list \<Rightarrow> folder list" where
  "folders_delete key fs = filter (\<lambda>x. fId x \<noteq> key) fs"

text \<open>An async function has returned a settled promise; a caller that awaits it is
  resumed from the microtask queue.\<close>

definition await_settled :: "reply \<Rightarrow> frame list \<Rightarrow> repo \<Rightarrow> repo" where
  "await_settled r k st = (if k = [] then st else st\<lparr> micro := micro st @ [(r, k)] \<rparr>)"

text \<open>An async function of the StorageManager: rejected at once when the database is
  not open, otherwise settled by its transaction.\<close>

definition storage_call :: "txn \<Rightarrow> frame list \<Rightarrow> repo \<Rightarrow> repo" where
  "storage_call t k st =
     (if \<not> dbOpen st then await_settled (Err ''Database not initialized'') k st
      else st\<lparr> queue := queue st @ [(t, k)] \<rparr>)"

text \<open>\<open>StorageManager.saveNotes(data)\<close>: with nothing to write the promise resolves at
  once.\<close>

definition storage_saveNotes :: "raw_note list \<Rightarrow> folder list \<Rightarrow> frame list \<Rightarrow> repo \<Rightarrow> repo" where
  "storage_saveNotes ns fs k st =
     (if \<not> dbOpen st then await_settled (Err ''Database not initialized'') k st
      else if length ns + length fs = 0 then await_settled Ok k st
      else st\<lparr> queue := queue st @ [(SaveTxn ns fs, k)] \<rparr>)"

text \<open>The data saveNotes writes: every cached entity re-validated leniently, the
  rejected ones filtered out.\<close>

definition snapshot_notes :: "clock \<Rightarrow> repo \<Rightarrow> raw_note list" where
  "snapshot_notes now st =
     List.map_filter
       (\<lambda>n. case validateNote now (foldersMap st) (Some (raw_of n)) False of
               Inr (Some v) \<Rightarrow> Some (raw_of v) | _ \<Rightarrow> None)
       (notesMap st)"

definition snapshot_folders :: "clock \<Rightarrow> repo \<Rightarrow> folder list" where
  "snapshot_folders now st =
     List.map_filter
       (\<lambda>f. case validateFolder now (Some f) False of Inr (Some v) \<Rightarrow> Some v | _ \<Rightarrow> None)
       (foldersMap st)"

text \<open>\<open>saveNotes()\<close> up to its await, called from the chain \<open>k\<close>.\<close>

definition saveNotes_from :: "frame list \<Rightarrow> clock \<Rightarrow> repo \<Rightarrow> repo" where
  "saveNotes_from k now st =
     (if saveInProgress st then await_settled Ok k st
      else if \<not> storageManager st then await_settled Ok k st
      else storage_saveNotes (snapshot_notes now st) (snapshot_folders now st) (SaveNotesK # k)
             (st\<lparr> saveInProgress := True \<rparr>))"

text \<open>\<open>loadNotes()\<close> up to its await.\<close>

definition loadNotes_from :: "frame list \<Rightarrow> repo \<Rightarrow> repo" where
  "loadNotes_from k st =
     (if loadInProgress st then await_settled Ok k st
      else if \<not> storageManager st then await_settled Ok k st
      else storage_call LoadTxn (LoadNotesK # k) (st\<lparr> loadInProgress := True \<rparr>))"

text \<open>The body of loadNotes after the data has arrived: notes first, validated against
  the folders cached at that moment, then folders.\<close>

definition load_note :: "clock \<Rightarrow> raw_note \<Rightarrow> repo \<Rightarrow> repo" where
  "load_note now r st =
     (case validateNote now (foldersMap st) (Some r) False of
        Inr (Some v) \<Rightarrow> st\<lparr> notesMap := notes_set v (notesMap st) \<rparr>
      | _ \<Rightarrow> st)"

definition load_folder :: "clock \<Rightarrow> folder \<Rightarrow> repo \<Rightarrow> repo" where
  "load_folder now f st =
     (case validateFolder now (Some f) False of
        Inr (Some v) \<Rightarrow> st\<lparr> foldersMap := folders_set v (foldersMap st) \<rparr>
      | _ \<Rightarrow> st)"

definition populate :: "clock \<Rightarrow> raw_note list \<Rightarrow> folder list \<Rightarrow> repo \<Rightarrow> repo" where
  "populate now ns fs st = fold (load_folder now) fs (fold (load_note now) ns st)"

text \<open>
  Resuming a suspended call chain with the outcome of the promise it awaited. Each frame
  is the rest of its async function; an outcome passes on to the frame that awaits it.
\<close>

fun resume :: "clock \<Rightarrow> reply \<Rightarrow> frame list \<Rightarrow> repo \<Rightarrow> repo" where
  "resume now r [] st = st"
| "resume now r (Caller l # k) st = resume now r k (st\<lparr> settled := settled st @ [(l, r)] \<rparr>)"
| "resume now r (SaveNotesK # k) st =
     resume now (case r of Err m \<Rightarrow> Err (''Failed to save notes: '' @ m) | _ \<Rightarrow> Ok) k
       (st\<lparr> saveInProgress := False \<rparr>)"
| "resume now r (LoadNotesK # k) st =
     (case r of
        Data ns fs \<Rightarrow> resume now Ok k ((populate now ns fs st)\<lparr> loadInProgress := False \<rparr>)
      | Err m \<Rightarrow> resume now (Err (''Failed to load notes: '' @ m)) k (st\<lparr> loadInProgress := False \<rparr>)
      | _ \<Rightarrow> resume now Ok k (st\<lparr> loadInProgress := False \<rparr>))"
| "resume now r (UpdateNoteK # k) st =
     resume now (case r of Err m \<Rightarrow> Err m | _ \<Rightarrow> Val True) k st"
| "resume now r (DeleteStoreK i # k) st =
     (case r of
        Err m \<Rightarrow> resume now (Err m) k st
      | _ \<Rightarrow> saveNotes_from (DeleteSaveK # k) now st)"
| "resume now r (DeleteSaveK # k) st =
     resume now (case r of Err m \<Rightarrow> Err m | _ \<Rightarrow> Ok) k st"
| "resume now r (SafeExecuteK ctx # k) st =
     resume now (case r of Err m \<Rightarrow> Err (ctx @ '' failed: '' @ m) | _ \<Rightarrow> r) k st"
| "resume now r (DeleteNoteK i # k) st =
     resume now (case r of Err m \<Rightarrow> Err m | _ \<Rightarrow> Val True) k st"

text \<open>
  One turn of the event loop: the oldest microtask if there is one, otherwise the oldest
  open transaction, which commits or fails (\<open>fails t\<close> gives the failure message) and
  then resumes the chain awaiting it.
\<close>

definition step :: "clock \<Rightarrow> (txn \<Rightarrow> string option) \<Rightarrow> repo \<Rightarrow> repo" where
  "step now fails st =
     (case micro st of
        (r, k) # ms \<Rightarrow> resume now r k (st\<lparr> micro := ms \<rparr>)
      | [] \<Rightarrow>
          (case queue st of
             [] \<Rightarrow> st
           | (t, k) # q \<Rightarrow>
               (let (r, d) = exec_txn (fails t) t (store st)
                in resume now r k (st\<lparr> queue := q, store := d \<rparr>))))"

text \<open>\<open>generateId()\<close>: \<open>fresh\<close> stands for the timestamp, random and counter parts.\<close>

definition generateId :: "string \<Rightarrow> string" where
  "generateId fresh = ''note_'' @ fresh"

text \<open>The folder reference of a cached note as a JavaScript value.\<close>

definition folder_ref :: "note_rec \<Rightarrow> jsval" where
  "folder_ref n = (case folderId n of None \<Rightarrow> JNull | Some f \<Rightarrow> JStr f)"

text \<open>
  The argument of createNote: an options object, or some other value. \<open>undefined\<close> takes
  the default \<open>{}\<close>; a truthy primitive is refused; reading a property of \<open>null\<close> raises
  a TypeError; a falsy primitive or an array has none of the properties.
\<close>

record note_options =
  optTitle :: jsval
  optContent :: jsval
  optColor :: jsval
  optTags :: jsval
  optFolderId :: jsval
  optIsFavorite :: jsval
  optIsShared :: jsval

datatype options_arg = Options note_options | NotOptions jsval

definition no_options :: note_options where
  "no_options = \<lparr> optTitle = JUndefined, optContent = JUndefined, optColor = JUndefined,
                  optTags = JUndefined, optFolderId = JUndefined, optIsFavorite = JUndefined,
                  optIsShared = JUndefined \<rparr>"

fun options_of :: "options_arg \<Rightarrow> string + note_options" where
  "options_of (Options opts) = Inr opts"
| "options_of (NotOptions JUndefined) = Inr no_options"
| "options_of (NotOptions JNull) = Inl ''Cannot read properties of null''"
| "options_of (NotOptions (JArr xs)) = Inr no_options"
| "options_of (NotOptions v) = (if truthy v then Inl ''Options must be an object'' else Inr no_options)"

text \<open>\<open>createNote(options)\<close>: the note returned (or the Error raised) and the repository
  after the call; the save it starts is not awaited.\<close>

definition createNote :: "clock \<Rightarrow> string \<Rightarrow> options_arg \<Rightarrow> repo \<Rightarrow> (string + note_rec) \<times> repo" where
  "createNote now fresh arg st =
     (case options_of arg of
        Inl m \<Rightarrow> (Inl (''Failed to create note: '' @ m), st)
      | Inr opts \<Rightarrow>
          (let n = \<lparr> rawId = JStr (generateId fresh),
                     rawTitle = JStr (sanitizeTitle (js_or (optTitle opts) (JStr []))),
                     rawContent = JStr (sanitizeContent (js_or (optContent opts) (JStr []))),
                     rawColor = JStr (validateColor (js_or (optColor opts) (JStr ''#ffffff''))),
                     rawTags = JArr (map JStr (validateTags (js_or (optTags opts) (JArr [])))),
                     rawFolderId =
                       (case validateFolderId (foldersMap st) (js_or (optFolderId opts) JNull) of
                          None \<Rightarrow> JNull | Some f \<Rightarrow> JStr f),
                     rawIsFavorite = JBool (truthy (optIsFavorite opts)),
                     rawIsShared = JBool (truthy (optIsShared opts)),
                     rawCreatedAt = Some (now 0),
                     rawModifiedAt = Some (now 1),
                     rawIsDirty = JBool False,
                     rawMetadata = Some \<lparr> rawWordCount = Some 0, rawAttachments = JArr [],
                                          rawLinks = JArr [], rawVersion = Some 1 \<rparr> \<rparr>
           in case validateNote now (foldersMap st) (Some n) True of
                Inl m \<Rightarrow> (Inl (''Failed to create note: '' @ m), st)
              | Inr None \<Rightarrow> (Inl ''Failed to create note: Failed to create valid note'', st)
              | Inr (Some v) \<Rightarrow>
                  (Inr v, saveNotes_from [] now (st\<lparr> notesMap := notes_set v (notesMap st) \<rparr>))))"

text \<open>\<open>updateNote(note)\<close> up to its await, called from the chain \<open>k\<close>.\<close>

definition updateNote_from :: "frame list \<Rightarrow> clock \<Rightarrow> raw_note option \<Rightarrow> repo \<Rightarrow> repo" where
  "updateNote_from k now arg st =
     (case arg of
        None \<Rightarrow> await_settled (Val False) k st
      | Some r \<Rightarrow>
          if \<not> truthy (rawId r) \<or> \<not> notes_has (notesMap st) (rawId r)
          then await_settled (Val False) k st
          else
            (case validateNote now (foldersMap st) (Some r) True of
               Inl m \<Rightarrow> await_settled (Err m) k st
             | Inr None \<Rightarrow> await_settled (Err ''Cannot set properties of null'') k st
             | Inr (Some v) \<Rightarrow>
                 saveNotes_from (UpdateNoteK # k) now
                   (st\<lparr> notesMap := notes_set (v\<lparr> modifiedAt := now 2 \<rparr>) (notesMap st) \<rparr>)))"

text \<open>\<open>deleteNote(id)\<close> up to its await, called from the chain \<open>k\<close>.\<close>

definition deleteNote_from :: "frame list \<Rightarrow> jsval \<Rightarrow> repo \<Rightarrow> repo" where
  "deleteNote_from k i st =
     (case i of
        JStr s \<Rightarrow>
          if s = [] then await_settled (Err ''Invalid note ID for deletion'') k st
          else if notes_has (notesMap st) (JStr s) then
            (let st1 = st\<lparr> notesMap := notes_delete s (notesMap st) \<rparr>;
                 k1 = SafeExecuteK ''note deletion'' # DeleteNoteK s # k
             in if storageManager st1 then storage_call (DeleteTxn s) (DeleteStoreK s # k1) st1
                else await_settled Ok k1 st1)
          else await_settled (Val False) k st
      | _ \<Rightarrow> await_settled (Err ''Invalid note ID for deletion'') k st)"


definition loadNotes :: "string \<Rightarrow> repo \<Rightarrow> repo" where
  "loadNotes l st = loadNotes_from [Caller l] st"

definition updateNote :: "string \<Rightarrow> clock \<Rightarrow> raw_note option \<Rightarrow> repo \<Rightarrow> repo" where
  "updateNote l now arg st = updateNote_from [Caller l] now arg st"

definition deleteNote :: "string \<Rightarrow> jsval \<Rightarrow> repo \<Rightarrow> repo" where
  "deleteNote l i st = deleteNote_from [Caller l] i st"


text \<open>One round of the forEach in deleteFolder: \<open>note.folderId = null\<close> on the cached
  object, then \<open>this.updateNote(note)\<close>, not awaited.\<close>

definition detach_note :: "clock \<Rightarrow> note_rec \<Rightarrow> repo \<Rightarrow> repo" where
  "detach_note now n st =
     updateNote_from [] now (Some (raw_of (n\<lparr> folderId := None \<rparr>)))
       (st\<lparr> notesMap := map (\<lambda>x. if noteId x = noteId n then x\<lparr> folderId := None \<rparr> else x)
                            (notesMap st) \<rparr>)"

definition deleteFolder :: "clock \<Rightarrow> jsval \<Rightarrow> repo \<Rightarrow> bool \<times> repo" where
  "deleteFolder now i st =
     (if folders_has (foldersMap st) i then
        (let members = filter (\<lambda>n. folder_ref n = i) (notesMap st);
             st1 = fold (detach_note now) members st
         in (True, saveNotes_from [] now (st1\<lparr> foldersMap := folders_delete i (foldersMap st1) \<rparr>)))
      else (False, st))"

section \<open>Filtered and sorted queries (NoteManager.getFilteredNotes)\<close>












section \<open>Search engine (SearchManager)\<close>

record search_filters =
  filterFolders :: "jsval list"
  filterTags :: "string list"
  dateFrom :: "int option"
  dateTo :: "int option"
  includeContent :: bool
  includeTags :: bool
  includeTitle :: bool

text \<open>The loop of parseSearchQuery over the characters of the query.\<close>

fun parse_loop :: "string \<Rightarrow> string list \<Rightarrow> string \<Rightarrow> bool \<Rightarrow> string list" where
  "parse_loop [] terms current inQuotes =
     (if trim current \<noteq> [] then terms @ [trim current] else terms)"
| "parse_loop (c # cs) terms current inQuotes =
     (if c = CHR 0x22 then parse_loop cs terms (current @ [c]) (\<not> inQuotes)
      else if c = CHR '' '' \<and> \<not> inQuotes then
        (if trim current \<noteq> [] then parse_loop cs (terms @ [trim current]) [] inQuotes
         else parse_loop cs terms current inQuotes)
      else parse_loop cs terms (current @ [c]) inQuotes)"

definition parseSearchQuery :: "string \<Rightarrow> string list" where
  "parseSearchQuery query = parse_loop query [] [] False"

text \<open>The text a term is looked up in: the enabled fields, case-folded.\<close>

definition searchText :: "(string \<Rightarrow> string) \<Rightarrow> search_filters \<Rightarrow> note_rec \<Rightarrow> string" where
  "searchText strip fl n =
     (if includeTitle fl then toLowerCase (title n) @ '' '' else [])
     @ (if includeContent fl then toLowerCase (strip (content n)) @ '' '' else [])
     @ (if includeTags fl then toLowerCase (join_sp (tags n)) else [])"

definition noteContainsTerm :: "(string \<Rightarrow> string) \<Rightarrow> note_rec \<Rightarrow> string \<Rightarrow> search_filters \<Rightarrow> bool" where
  "noteContainsTerm strip n term fl = str_includes (searchText strip fl n) term"

definition noteContainsPhrase :: "(string \<Rightarrow> string) \<Rightarrow> note_rec \<Rightarrow> string \<Rightarrow> search_filters \<Rightarrow> bool" where
  "noteContainsPhrase strip n phrase fl = str_includes (searchText strip fl n) phrase"

text \<open>The test performTextSearch makes for one term; \<open>term.slice(1, -1)\<close> drops the
  first and the last character.\<close>

definition term_matches :: "(string \<Rightarrow> string) \<Rightarrow> search_filters \<Rightarrow> note_rec \<Rightarrow> string \<Rightarrow> bool" where
  "term_matches strip fl n term =
     (if prefix ''-'' term then \<not> noteContainsTerm strip n (toLowerCase (drop 1 term)) fl
      else if prefix [CHR 0x22] term \<and> suffix [CHR 0x22] term then
        noteContainsPhrase strip n (toLowerCase (butlast (drop 1 term))) fl
      else noteContainsTerm strip n (toLowerCase term) fl)"

definition performTextSearch ::
  "(string \<Rightarrow> string) \<Rightarrow> note_rec list \<Rightarrow> string \<Rightarrow> search_filters \<Rightarrow> note_rec list" where
  "performTextSearch strip ns query fl =
     filter (\<lambda>n. list_all (term_matches strip fl n) (parseSearchQuery query)) ns"

definition applyFilters :: "note_rec list \<Rightarrow> search_filters \<Rightarrow> note_rec list" where
  "applyFilters ns fl =
     (let f1 = (if length (filterFolders fl) > 0
                then filter (\<lambda>n. folder_ref n \<in> set (filterFolders fl)) ns else ns);
          f2 = (if length (filterTags fl) > 0
                then filter (\<lambda>n. list_ex (\<lambda>tag. tag \<in> set (tags n)) (filterTags fl)) f1 else f1)
      in if dateFrom fl \<noteq> None \<or> dateTo fl \<noteq> None
         then filter (\<lambda>n. (case dateFrom fl of Some d \<Rightarrow> \<not> modifiedAt n < d | None \<Rightarrow> True)
                         \<and> (case dateTo fl of Some d \<Rightarrow> \<not> modifiedAt n > d | None \<Rightarrow> True)) f2
         else f2)"

text \<open>\<open>search(notes, query, filters)\<close> with both arguments given.\<close>

definition search :: "(string \<Rightarrow> string) \<Rightarrow> note_rec list \<Rightarrow> string \<Rightarrow> search_filters \<Rightarrow> note_rec list" where
  "search strip ns query fl =
     applyFilters
       (if query \<noteq> [] \<and> trim query \<noteq> [] then performTextSearch strip ns query fl else ns) fl"

section \<open>Opening the store (StorageManager.init)\<close>

text \<open>
  The connection state of the StorageManager. \<open>delays\<close> lists the timeouts awaited so
  far, in milliseconds, and \<open>opened\<close> counts the calls of \<open>_openDatabase\<close>; the outcome of
  the call number \<open>i\<close> (from 0) is \<open>opn i\<close>, an error message or a database handle.
\<close>

record 'db connection =
  db :: "'db option"
  connectionAttempts :: nat
  initPromise :: "(string + 'db option) option"
  delays :: "nat list"
  opened :: nat

definition maxConnectionAttempts :: nat where "maxConnectionAttempts = 3"

function init_loop :: "(nat \<Rightarrow> string + 'db) \<Rightarrow> 'db connection \<Rightarrow> (string + 'db option) \<times> 'db connection" where
  "init_loop opn c =
     (if connectionAttempts c < maxConnectionAttempts then
        (let c1 = c\<lparr> connectionAttempts := connectionAttempts c + 1, opened := opened c + 1 \<rparr>
         in case opn (opened c) of
              Inr d \<Rightarrow> (Inr (Some d), c1\<lparr> db := Some d, connectionAttempts := 0 \<rparr>)
            | Inl m \<Rightarrow>
                if connectionAttempts c1 \<ge> maxConnectionAttempts
                then (Inl (''Failed to initialize database after 3 attempts: '' @ m), c1)
                else init_loop opn (c1\<lparr> delays := delays c1 @ [1000 * connectionAttempts c1] \<rparr>))
      else (Inr None, c))"
  by pat_completeness auto
termination
  by (relation "measure (\<lambda>(opn, c). maxConnectionAttempts - connectionAttempts c)") auto

declare init_loop.simps [simp del]

definition initDatabase :: "bool \<Rightarrow> (nat \<Rightarrow> string + 'db) \<Rightarrow> 'db connection \<Rightarrow> (string + 'db option) \<times> 'db connection" where
  "initDatabase supported opn c =
     (if \<not> supported then (Inl ''IndexedDB is not supported in this browser'', c)
      else init_loop opn c)"

text \<open>\<open>init()\<close>: the first call starts \<open>_initDatabase\<close>, later calls return its promise.\<close>

definition init :: "bool \<Rightarrow> (nat \<Rightarrow> string + 'db) \<Rightarrow> 'db connection \<Rightarrow> (string + 'db option) \<times> 'db connection" where
  "init supported opn c =
     (case initPromise c of
        Some r \<Rightarrow> (r, c)
      | None \<Rightarrow> (let (r, c1) = initDatabase supported opn c in (r, c1\<lparr> initPromise := Some r \<rparr>)))"

text \<open>The state \<open>new StorageManager()\<close> constructs.\<close>

definition new_connection :: "'db connection" where
  "new_connection = \<lparr> db = None, connectionAttempts = 0, initPromise = None, delays = [], opened = 0 \<rparr>"

section \<open>Reference definitions and sample data\<close>

text \<open>
  The order the specification gives for tag validation, for comparison with
  \<open>validateTags\<close>: de-duplicate the cleaned tags first, then cut to the per-note cap.
\<close>

definition validateTags_dedup_then_truncate :: "jsval \<Rightarrow> string list" where
  "validateTags_dedup_then_truncate tgs =
     (case tgs of
        JArr vs \<Rightarrow>
          take maxTagsPerNote
            (first_occurrences (map (\<lambda>tag. substring0 maxTagLength (trim tag)) (tag_strings vs)))
      | _ \<Rightarrow> [])"

text \<open>A repository with nothing cached, no storage manager attached and an empty database.\<close>

definition empty_repo :: repo where
  "empty_repo =
     \<lparr> notesMap = [], foldersMap = [], saveInProgress = False, loadInProgress = False,
       storageManager = False, dbOpen = False,
       store = \<lparr> notesStore = [], foldersStore = [] \<rparr>,
       micro = [], queue = [], settled = [] \<rparr>"

text \<open>The same with a storage manager attached and its database open.\<close>

definition attached_repo :: repo where
  "attached_repo = empty_repo\<lparr> storageManager := True, dbOpen := True \<rparr>"

text \<open>A note with the given id, title and timestamps, all else as createNote leaves it.\<close>

definition sample_note :: "string \<Rightarrow> string \<Rightarrow> int \<Rightarrow> int \<Rightarrow> note_rec" where
  "sample_note i t c m =
     \<lparr> noteId = i, title = t, content = [], color = ''#ffffff'', tags = [], folderId = None,
       isFavorite = False, isShared = False, createdAt = c, modifiedAt = m, isDirty = False,
       metadata = \<lparr> wordCount = 0, attachments = [], links = [], version = 1 \<rparr> \<rparr>"

definition sample_folder :: "string \<Rightarrow> string \<Rightarrow> folder" where
  "sample_folder i nm =
     \<lparr> fId = JStr i, name = JStr nm, parentId = JNull, fColor = JStr ''#ffffff'',
       fCreatedAt = Some 0, fModifiedAt = Some 0 \<rparr>"

text \<open>Twenty-five distinct tags, already trimmed and short.\<close>

definition sample_tags :: "string list" where
  "sample_tags =
     [''t01'', ''t02'', ''t03'', ''t04'', ''t05'', ''t06'', ''t07'', ''t08'', ''t09'', ''t10'',
      ''t11'', ''t12'', ''t13'', ''t14'', ''t15'', ''t16'', ''t17'', ''t18'', ''t19'', ''t20'',
      ''t21'', ''t22'', ''t23'', ''t24'', ''t25'']"

text \<open>An attached repository caching the single note \<open>n1\<close>.\<close>

definition one_note_repo :: repo where
  "one_note_repo = attached_repo\<lparr> notesMap := [sample_note ''n1'' ''Plan'' 10 20] \<rparr>"

text \<open>A phrase between double quotes, as it is typed into a query, and the query
  \<open>"release notes"\<close>, quotes included.\<close>

definition quoted :: "string \<Rightarrow> string" where
  "quoted p = [CHR 0x22] @ p @ [CHR 0x22]"

definition quoted_release_notes :: string where
  "quoted_release_notes = quoted ''release notes''"

text \<open>The filters a new SearchManager starts with: every field searched, no structural
  filter.\<close>

definition default_filters :: search_filters where
  "default_filters =
     \<lparr> filterFolders = [], filterTags = [], dateFrom = None, dateTo = None,
       includeContent = True, includeTags = True, includeTitle = True \<rparr>"

text \<open>\<open>this.notes.get(id)\<close>\<close>

definition notes_get :: "note_rec list \<Rightarrow> string \<Rightarrow> note_rec option" where
  "notes_get ns i = find (\<lambda>x. noteId x = i) ns"

text \<open>Folders \<open>f1\<close> and \<open>f2\<close>; notes \<open>a\<close> and \<open>b\<close> in \<open>f1\<close>, note \<open>c\<close> in \<open>f2\<close>.\<close>

definition folder_repo :: repo where
  "folder_repo =
     attached_repo
       \<lparr> notesMap := [(sample_note ''a'' ''Plan'' 10 20)\<lparr> folderId := Some ''f1'' \<rparr>,
                      (sample_note ''b'' ''Draft'' 11 21)\<lparr> folderId := Some ''f1'' \<rparr>,
                      (sample_note ''c'' ''List'' 12 22)\<lparr> folderId := Some ''f2'' \<rparr>],
         foldersMap := [sample_folder ''f1'' ''Work'', sample_folder ''f2'' ''Home''] \<rparr>"






text \<open>
  A note on its way out of the repository: it is not cached, no loaded data waiting to
  be cached holds it, and once the open transactions have committed, in their order, it
  is not stored, no load among them having read it. \<open>queue_safe i b q\<close> runs through the
  open transactions; \<open>b\<close> says that the store does not hold the note at that point.
\<close>

fun queue_safe :: "string \<Rightarrow> bool \<Rightarrow> (txn \<times> frame list) list \<Rightarrow> bool" where
  "queue_safe i b [] = b"
| "queue_safe i b ((SaveTxn ns fs, k) # q) = queue_safe i (b \<and> JStr i \<notin> set (map rawId ns)) q"
| "queue_safe i b ((DeleteTxn j, k) # q) = queue_safe i (b \<or> j = i) q"
| "queue_safe i b ((LoadTxn, k) # q) = (b \<and> queue_safe i b q)"

definition note_leaving :: "string \<Rightarrow> repo \<Rightarrow> bool" where
  "note_leaving i st =
     (i \<notin> set (map noteId (notesMap st))
      \<and> list_all (\<lambda>e. case fst e of Data ns fs \<Rightarrow> JStr i \<notin> set (map rawId ns) | _ \<Rightarrow> True) (micro st)
      \<and> queue_safe i (JStr i \<notin> set (map rawId (notesStore (store st)))) (queue st))"


section \<open>Array helpers\<close>

lemma indexOf_notin: "x \<notin> set ys \<Longrightarrow> indexOf ys x = -1"
  by (induction ys) (auto simp: Let_def)

lemma indexOf_nonneg: "x \<in> set ys \<Longrightarrow> 0 \<le> indexOf ys x"
  by (induction ys) (auto simp: Let_def)

lemma indexOf_lt: "indexOf xs x < int (length xs)"
  by (induction xs) (auto simp: Let_def)

lemma indexOf_append_in: "x \<in> set xs \<Longrightarrow> indexOf (xs @ ys) x = indexOf xs x"
proof (induction xs)
  case Nil
  then show ?case by simp
next
  case (Cons a xs)
  show ?case
  proof (cases "a = x")
    case True
    then show ?thesis by simp
  next
    case False
    with Cons.prems have "x \<in> set xs" by simp
    with Cons.IH have "indexOf (xs @ ys) x = indexOf xs x" by simp
    with False show ?thesis by (simp add: Let_def)
  qed
qed

lemma indexOf_snoc_notin: "x \<notin> set xs \<Longrightarrow> indexOf (xs @ [x]) x = int (length xs)"
  by (induction xs) (auto simp: Let_def)

lemma first_occurrences_Nil: "first_occurrences [] = []"
  by (simp add: first_occurrences_def)

lemma first_occurrences_snoc:
  "first_occurrences (xs @ [x]) = first_occurrences xs @ (if x \<in> set xs then [] else [x])"
proof -
  have a: "filter (\<lambda>(tag, index). indexOf (xs @ [x]) tag = int index) (zip xs [0..<length xs])
         = filter (\<lambda>(tag, index). indexOf xs tag = int index) (zip xs [0..<length xs])"
    by (rule filter_cong) (auto simp: indexOf_append_in dest: set_zip_leftD)
  have b: "indexOf (xs @ [x]) x = int (length xs) \<longleftrightarrow> x \<notin> set xs"
    using indexOf_lt[of xs x] by (auto simp: indexOf_append_in indexOf_snoc_notin)
  show ?thesis
    unfolding first_occurrences_def using a b by simp
qed

lemma set_first_occurrences: "set (first_occurrences xs) = set xs"
  by (induction xs rule: rev_induct) (auto simp: first_occurrences_snoc first_occurrences_Nil)

lemma distinct_first_occurrences: "distinct (first_occurrences xs)"
  by (induction xs rule: rev_induct)
     (auto simp: first_occurrences_snoc set_first_occurrences first_occurrences_Nil)

lemma first_occurrences_distinct: "distinct xs \<Longrightarrow> first_occurrences xs = xs"
  by (induction xs rule: rev_induct) (auto simp: first_occurrences_snoc first_occurrences_Nil)

lemma length_first_occurrences: "length (first_occurrences xs) \<le> length xs"
  by (induction xs rule: rev_induct) (auto simp: first_occurrences_snoc first_occurrences_Nil)

section \<open>Tag validation\<close>

lemma tag_strings_clean:
  "\<forall>t\<in>set ts. trim t = t \<and> t \<noteq> [] \<Longrightarrow> tag_strings (map JStr ts) = ts"
  by (induction ts) auto

lemma validateTags_clean:
  assumes "\<forall>t\<in>set ts. trim t = t \<and> t \<noteq> [] \<and> length t \<le> 50" and "distinct ts"
  shows "validateTags (JArr (map JStr ts)) = take 20 ts"
proof -
  have a: "tag_strings (map JStr ts) = ts"
    using assms(1) by (intro tag_strings_clean) auto
  have b: "map (\<lambda>tag. substring0 maxTagLength (trim tag)) ts = ts"
    using assms(1) by (intro map_idI) (auto simp: substring0_def maxTagLength_def)
  have c: "distinct (take 20 ts)"
    using assms(2) by simp
  show ?thesis
    by (simp add: validateTags_def a b maxTagsPerNote_def first_occurrences_distinct[OF c])
qed

text \<open>
  Claim C2, as the code has it. \<open>validateTags\<close> keeps the string tags that are not blank,
  trims each and cuts it to 50 characters, cuts the list to its first 20 entries and only
  then removes duplicates, keeping first occurrences. The result has at most 20 distinct
  tags and is the first 20 cleaned tags when those are pairwise distinct. In particular,
  createNote with 25 pairwise distinct tags that are trimmed, non-empty and at most 50
  characters long yields exactly the first 20 of them in their original order.
\<close>

theorem validateTags_truncates_then_dedups:
  "validateTags (JArr vs)
     = first_occurrences (take 20 (map (\<lambda>tag. take 50 (trim tag)) (tag_strings vs)))
   \<and> distinct (validateTags (JArr vs))
   \<and> length (validateTags (JArr vs)) \<le> 20
   \<and> (distinct (take 20 (map (\<lambda>tag. take 50 (trim tag)) (tag_strings vs))) \<longrightarrow>
        validateTags (JArr vs) = take 20 (map (\<lambda>tag. take 50 (trim tag)) (tag_strings vs)))
   \<and> ((\<forall>t\<in>set ts. trim t = t \<and> t \<noteq> [] \<and> length t \<le> 50) \<and> distinct ts \<and> length ts = 25 \<longrightarrow>
        validateTags (JArr (map JStr ts)) = take 20 ts
        \<and> length (validateTags (JArr (map JStr ts))) = 20
        \<and> (\<exists>v st'. createNote now fresh (Options (opts\<lparr> optTags := JArr (map JStr ts) \<rparr>)) st = (Inr v, st')
                    \<and> tags v = take 20 ts \<and> length (tags v) = 20))"
proof -
  let ?c = "take 20 (map (\<lambda>tag. take 50 (trim tag)) (tag_strings vs))"
  have eq: "validateTags (JArr vs) = first_occurrences ?c"
    by (simp add: validateTags_def substring0_def maxTagLength_def maxTagsPerNote_def)
  have len: "length (validateTags (JArr vs)) \<le> 20"
    unfolding eq using length_first_occurrences[of ?c] by simp
  have created: "\<exists>v st'. createNote now fresh (Options (opts\<lparr> optTags := JArr (map JStr ts) \<rparr>)) st = (Inr v, st')
                    \<and> tags v = take 20 ts \<and> length (tags v) = 20"
    if cl: "\<forall>t\<in>set ts. trim t = t \<and> t \<noteq> [] \<and> length t \<le> 50" and d: "distinct ts" and l: "length ts = 25"
  proof -
    have cl2: "\<forall>t\<in>set (take 20 ts). trim t = t \<and> t \<noteq> [] \<and> length t \<le> 50"
      using cl by (meson in_set_takeD)
    have d2: "distinct (take 20 ts)" using d by simp
    have t1: "validateTags (JArr (map JStr ts)) = take 20 ts"
      by (rule validateTags_clean[OF cl d])
    have t2: "validateTags (JArr (map JStr (take 20 ts))) = take 20 ts"
      using validateTags_clean[OF cl2 d2] by simp
    show ?thesis
      using l by (simp add: createNote_def validateNote_def generateId_def js_or_def t1 t2 Let_def)
  qed
  show ?thesis
    using eq len created
    by (auto simp: distinct_first_occurrences first_occurrences_distinct validateTags_clean)
qed

text \<open>The 25 sample tags satisfy the hypotheses; the note created keeps the first 20.\<close>

theorem validateTags_truncates_then_dedups_witness:
  "list_all (\<lambda>t. trim t = t \<and> t \<noteq> [] \<and> length t \<le> 50) sample_tags
   \<and> distinct sample_tags \<and> length sample_tags = 25
   \<and> validateTags (JArr (map JStr sample_tags)) = take 20 sample_tags
   \<and> (\<exists>v st'. createNote (\<lambda>k. 0) ''a1'' (Options (no_options\<lparr> optTags := JArr (map JStr sample_tags) \<rparr>)) empty_repo
                 = (Inr v, st')
               \<and> tags v = take 20 sample_tags \<and> length (tags v) = 20)"
proof -
  have h: "list_all (\<lambda>t. trim t = t \<and> t \<noteq> [] \<and> length t \<le> 50) sample_tags
           \<and> distinct sample_tags \<and> length sample_tags = 25"
    by code_simp
  then have h': "(\<forall>t\<in>set sample_tags. trim t = t \<and> t \<noteq> [] \<and> length t \<le> 50)
                 \<and> distinct sample_tags \<and> length sample_tags = 25"
    by (simp add: list_all_iff)
  from validateTags_truncates_then_dedups
         [of "[]" sample_tags "\<lambda>k. 0" "''a1''" no_options empty_repo] h'
  have "validateTags (JArr (map JStr sample_tags)) = take 20 sample_tags
        \<and> length (validateTags (JArr (map JStr sample_tags))) = 20
        \<and> (\<exists>v st'. createNote (\<lambda>k. 0) ''a1'' (Options (no_options\<lparr> optTags := JArr (map JStr sample_tags) \<rparr>)) empty_repo
                 = (Inr v, st')
               \<and> tags v = take 20 sample_tags \<and> length (tags v) = 20)"
    by blast
  with h show ?thesis by blast
qed

text \<open>
  Claim C2 as stated (de-duplicate first, then truncate) fails: of twenty tags \<open>a\<close>
  followed by one tag \<open>b\<close> the code keeps only \<open>a\<close>, while the stated order keeps both.
\<close>

theorem validateTags_order_counterexample:
  "validateTags (JArr (replicate 20 (JStr ''a'') @ [JStr ''b''])) = [''a'']
   \<and> validateTags_dedup_then_truncate (JArr (replicate 20 (JStr ''a'') @ [JStr ''b''])) = [''a'', ''b'']"
  by code_simp

section \<open>Deleting a note\<close>

lemma deleteNote_micro_cases:
  assumes "s \<noteq> []"
  shows "micro (deleteNote l (JStr s) st) \<noteq> micro st @ [(Err m, [Caller l])]"
proof (cases "notes_has (notesMap st) (JStr s)")
  case False
  then show ?thesis using assms
    by (simp add: deleteNote_def deleteNote_from_def await_settled_def)
next
  case True
  show ?thesis
  proof (cases "storageManager st")
    case False
    with True show ?thesis using assms
      by (simp add: deleteNote_def deleteNote_from_def await_settled_def Let_def)
  next
    case sm: True
    show ?thesis
    proof (cases "dbOpen st")
      case False
      with True sm show ?thesis using assms
        by (simp add: deleteNote_def deleteNote_from_def await_settled_def storage_call_def Let_def)
    next
      case db: True
      with True sm show ?thesis using assms
        by (simp add: deleteNote_def deleteNote_from_def storage_call_def Let_def)
    qed
  qed
qed

lemma deleteNote_reject_untouched:
  assumes e: "deleteNote l i st = st\<lparr> micro := micro st @ [(Err m, [Caller l])] \<rparr>"
  shows "\<not> truthy i \<or> (\<forall>s. i \<noteq> JStr s)"
proof (cases i)
  case (JStr s)
  show ?thesis
  proof (cases "s = []")
    case True
    with JStr show ?thesis by simp
  next
    case False
    have "micro (deleteNote l (JStr s) st) = micro (st\<lparr> micro := micro st @ [(Err m, [Caller l])] \<rparr>)"
      using e unfolding JStr by (rule arg_cong)
    then have "micro (deleteNote l (JStr s) st) = micro st @ [(Err m, [Caller l])]"
      by simp
    with deleteNote_micro_cases[OF False, of l st m] show ?thesis
      by blast
  qed
qed simp_all

text \<open>
  Claim C10. For an id that is a non-empty string and not a key of the note cache,
  \<open>deleteNote\<close> changes nothing in the repository and opens no transaction: all it leaves
  behind is the resolution of the caller's await with \<open>false\<close>, delivered by the next turn
  of the event loop. For an id that is falsy or not a string it rejects with the state
  untouched; and it rejects with the state untouched only for such an id.
\<close>

theorem deleteNote_unknown_id:
  "(s \<noteq> [] \<and> \<not> notes_has (notesMap st) (JStr s) \<longrightarrow>
      deleteNote l (JStr s) st = st\<lparr> micro := micro st @ [(Val False, [Caller l])] \<rparr>
      \<and> (micro st = [] \<longrightarrow>
            step now fails (deleteNote l (JStr s) st) = st\<lparr> settled := settled st @ [(l, Val False)] \<rparr>))
   \<and> (\<not> truthy i \<or> (\<forall>s. i \<noteq> JStr s) \<longrightarrow>
        deleteNote l i st = st\<lparr> micro := micro st @ [(Err ''Invalid note ID for deletion'', [Caller l])] \<rparr>)
   \<and> (deleteNote l i st = st\<lparr> micro := micro st @ [(Err m, [Caller l])] \<rparr> \<longrightarrow>
        \<not> truthy i \<or> (\<forall>s. i \<noteq> JStr s))"
proof (intro conjI impI)
  assume a: "s \<noteq> [] \<and> \<not> notes_has (notesMap st) (JStr s)"
  then show r: "deleteNote l (JStr s) st = st\<lparr> micro := micro st @ [(Val False, [Caller l])] \<rparr>"
    by (simp add: deleteNote_def deleteNote_from_def await_settled_def)
  assume "micro st = []"
  then show "step now fails (deleteNote l (JStr s) st) = st\<lparr> settled := settled st @ [(l, Val False)] \<rparr>"
    unfolding r by (simp add: step_def)
next
  assume "\<not> truthy i \<or> (\<forall>s. i \<noteq> JStr s)"
  then show "deleteNote l i st = st\<lparr> micro := micro st @ [(Err ''Invalid note ID for deletion'', [Caller l])] \<rparr>"
    by (cases i) (auto simp: deleteNote_def deleteNote_from_def await_settled_def)
next
  assume "deleteNote l i st = st\<lparr> micro := micro st @ [(Err m, [Caller l])] \<rparr>"
  then show "\<not> truthy i \<or> (\<forall>s. i \<noteq> JStr s)"
    by (rule deleteNote_reject_untouched)
qed

text \<open>On the repository caching only \<open>n1\<close>: the unknown id \<open>zz\<close> resolves to \<open>false\<close>,
  and \<open>null\<close> is rejected, each with the repository unchanged.\<close>

theorem deleteNote_unknown_id_witness:
  "\<not> notes_has (notesMap one_note_repo) (JStr ''zz'')
   \<and> deleteNote ''d'' (JStr ''zz'') one_note_repo
       = one_note_repo\<lparr> micro := [(Val False, [Caller ''d''])] \<rparr>
   \<and> step (\<lambda>k. 0) (\<lambda>t. None) (deleteNote ''d'' (JStr ''zz'') one_note_repo)
       = one_note_repo\<lparr> settled := [(''d'', Val False)] \<rparr>
   \<and> deleteNote ''d'' JNull one_note_repo
       = one_note_repo\<lparr> micro := [(Err ''Invalid note ID for deletion'', [Caller ''d''])] \<rparr>
   \<and> \<not> truthy JNull"
proof -
  have h1: "''zz'' \<noteq> [] \<and> \<not> notes_has (notesMap one_note_repo) (JStr ''zz'')"
    by (simp add: one_note_repo_def attached_repo_def empty_repo_def sample_note_def notes_has_def)
  have h2: "micro one_note_repo = []" and h2': "settled one_note_repo = []"
    by (simp_all add: one_note_repo_def attached_repo_def empty_repo_def)
  have h3: "\<not> truthy JNull \<or> (\<forall>s. JNull \<noteq> JStr s)"
    by simp
  note t = deleteNote_unknown_id
         [of "''zz''" one_note_repo "''d''" "\<lambda>k. 0" "\<lambda>t. None" JNull "''Invalid note ID for deletion''"]
  from t h1 have c1: "deleteNote ''d'' (JStr ''zz'') one_note_repo
       = one_note_repo\<lparr> micro := micro one_note_repo @ [(Val False, [Caller ''d''])] \<rparr>"
    by blast
  from t h1 h2 have c2: "step (\<lambda>k. 0) (\<lambda>t. None) (deleteNote ''d'' (JStr ''zz'') one_note_repo)
       = one_note_repo\<lparr> settled := settled one_note_repo @ [(''d'', Val False)] \<rparr>"
    by blast
  from t h3 have c3: "deleteNote ''d'' JNull one_note_repo
       = one_note_repo\<lparr> micro := micro one_note_repo @ [(Err ''Invalid note ID for deletion'', [Caller ''d''])] \<rparr>"
    by blast
  show ?thesis
    using h1 c1 c2 c3 unfolding h2 h2' by simp
qed

section \<open>Opening the store\<close>

lemma init_loop_fresh:
  "connectionAttempts c = 0 \<Longrightarrow> opened c = 0 \<Longrightarrow> delays c = [] \<Longrightarrow>
   init_loop opn c =
    (case opn 0 of
       Inr d \<Rightarrow> (Inr (Some d), c\<lparr> connectionAttempts := 0, opened := 1, db := Some d \<rparr>)
     | Inl m0 \<Rightarrow>
        (case opn 1 of
           Inr d \<Rightarrow> (Inr (Some d),
                     c\<lparr> connectionAttempts := 0, opened := 2, delays := [1000], db := Some d \<rparr>)
         | Inl m1 \<Rightarrow>
            (case opn 2 of
               Inr d \<Rightarrow> (Inr (Some d),
                         c\<lparr> connectionAttempts := 0, opened := 3, delays := [1000, 2000],
                            db := Some d \<rparr>)
             | Inl m2 \<Rightarrow> (Inl (''Failed to initialize database after 3 attempts: '' @ m2),
                          c\<lparr> connectionAttempts := 3, opened := 3, delays := [1000, 2000] \<rparr>))))"
  by (auto simp add: init_loop.simps maxConnectionAttempts_def Let_def numeral_2_eq_2 numeral_3_eq_3
           split: sum.split)

lemma init_new_connection:
  "init True opn new_connection =
    (case opn 0 of
       Inr d \<Rightarrow> (Inr (Some d), new_connection\<lparr> connectionAttempts := 0, opened := 1, db := Some d,
                                               initPromise := Some (Inr (Some d)) \<rparr>)
     | Inl m0 \<Rightarrow>
        (case opn 1 of
           Inr d \<Rightarrow> (Inr (Some d),
                     new_connection\<lparr> connectionAttempts := 0, opened := 2, delays := [1000],
                                      db := Some d, initPromise := Some (Inr (Some d)) \<rparr>)
         | Inl m1 \<Rightarrow>
            (case opn 2 of
               Inr d \<Rightarrow> (Inr (Some d),
                         new_connection\<lparr> connectionAttempts := 0, opened := 3,
                                          delays := [1000, 2000], db := Some d,
                                          initPromise := Some (Inr (Some d)) \<rparr>)
             | Inl m2 \<Rightarrow>
                 (Inl (''Failed to initialize database after 3 attempts: '' @ m2),
                  new_connection\<lparr> connectionAttempts := 3, opened := 3, delays := [1000, 2000],
                                   initPromise :=
                                     Some (Inl (''Failed to initialize database after 3 attempts: '' @ m2)) \<rparr>))))"
proof -
  have il: "init_loop opn new_connection = (case opn 0 of
       Inr d \<Rightarrow> (Inr (Some d), new_connection\<lparr> connectionAttempts := 0, opened := 1, db := Some d \<rparr>)
     | Inl m0 \<Rightarrow>
        (case opn 1 of
           Inr d \<Rightarrow> (Inr (Some d),
                     new_connection\<lparr> connectionAttempts := 0, opened := 2, delays := [1000], db := Some d \<rparr>)
         | Inl m1 \<Rightarrow>
            (case opn 2 of
               Inr d \<Rightarrow> (Inr (Some d),
                         new_connection\<lparr> connectionAttempts := 0, opened := 3, delays := [1000, 2000],
                            db := Some d \<rparr>)
             | Inl m2 \<Rightarrow> (Inl (''Failed to initialize database after 3 attempts: '' @ m2),
                          new_connection\<lparr> connectionAttempts := 3, opened := 3, delays := [1000, 2000] \<rparr>))))"
    by (rule init_loop_fresh) (simp_all add: new_connection_def)
  have ip: "initPromise new_connection = None"
    by (simp add: new_connection_def)
  show ?thesis
    unfolding init_def initDatabase_def ip il by (simp split: sum.split)
qed

text \<open>
  Claim C4, as the code has it. Opening a fresh StorageManager tries \<open>_openDatabase\<close> at
  most three times in all. It waits 1000 ms after a first failure and 2000 ms after a
  second one; a third failure rejects at once with the fatal error, without a further
  wait. As soon as one of the three attempts succeeds, \<open>init\<close> resolves with the database
  it opened, stores it and resets the attempt counter.
\<close>

theorem init_retry_policy:
  "init True opn new_connection = (r, c) \<Longrightarrow>
     1 \<le> opened c \<and> opened c \<le> 3
     \<and> delays c = take (opened c - 1) [1000, 2000]
     \<and> (\<forall>j < opened c - 1. isl (opn j))
     \<and> (case r of
           Inr (Some d) \<Rightarrow> opn (opened c - 1) = Inr d \<and> db c = Some d \<and> connectionAttempts c = 0
         | Inr None \<Rightarrow> False
         | Inl m \<Rightarrow> opened c = 3 \<and> isl (opn 2) \<and> db c = None
                    \<and> m = ''Failed to initialize database after 3 attempts: '' @ projl (opn 2))
     \<and> ((\<exists>k<3. \<not> isl (opn k)) \<longrightarrow> (\<exists>d. r = Inr (Some d)))
     \<and> initPromise c = Some r"
proof -
  assume e: "init True opn new_connection = (r, c)"
  note e' = e[unfolded init_new_connection]
  have lt1: "j = 0" if "j < Suc 0" for j :: nat using that by simp
  have lt2: "j = 0 \<or> j = 1" if "j < 2" for j :: nat using that by arith
  have lt3: "j = 0 \<or> j = 1 \<or> j = 2" if "j < 3" for j :: nat using that by arith
  show ?thesis
  proof (cases "opn 0")
    case (Inr d)
    with e' have "r = Inr (Some d)"
      and "c = new_connection\<lparr> connectionAttempts := 0, opened := 1, db := Some d,
                                  initPromise := Some (Inr (Some d)) \<rparr>"
      by auto
    with Inr show ?thesis by (simp add: new_connection_def)
  next
    case f0: (Inl m0)
    show ?thesis
    proof (cases "opn 1")
      case (Inr d)
      with e' f0 have "r = Inr (Some d)"
        and "c = new_connection\<lparr> connectionAttempts := 0, opened := 2, delays := [1000],
                                    db := Some d, initPromise := Some (Inr (Some d)) \<rparr>"
        by auto
      with Inr f0 show ?thesis by (auto simp: new_connection_def dest: lt1)
    next
      case f1: (Inl m1)
      show ?thesis
      proof (cases "opn 2")
        case (Inr d)
        with e' f0 f1 have "r = Inr (Some d)"
          and "c = new_connection\<lparr> connectionAttempts := 0, opened := 3, delays := [1000, 2000],
                                      db := Some d, initPromise := Some (Inr (Some d)) \<rparr>"
          by auto
        with Inr f0 f1 show ?thesis by (auto simp: new_connection_def dest!: lt2)
      next
        case f2: (Inl m2)
        with e' f0 f1 have r: "r = Inl (''Failed to initialize database after 3 attempts: '' @ m2)"
          and c: "c = new_connection\<lparr> connectionAttempts := 3, opened := 3, delays := [1000, 2000],
                        initPromise :=
                          Some (Inl (''Failed to initialize database after 3 attempts: '' @ m2)) \<rparr>"
          by auto
        have all: "isl (opn k)" if "k < 3" for k
          using lt3[OF that] f0 f1 f2 by auto
        have two: "isl (opn j)" if "j < 2" for j
          using lt2[OF that] f0 f1 by auto
        show ?thesis
          unfolding r c using f2 all two by (auto simp: new_connection_def)
      qed
    qed
  qed
qed

text \<open>The first attempt fails and the second opens database 7: one wait of 1000 ms.\<close>

theorem init_retry_policy_witness:
  "init True (\<lambda>k. if k = 1 then Inr 7 else Inl ''blocked'') (new_connection :: nat connection)
     = (Inr (Some 7),
        \<lparr> db = Some 7, connectionAttempts = 0, initPromise = Some (Inr (Some 7)),
          delays = [1000], opened = 2 \<rparr>)
   \<and> delays \<lparr> db = Some (7::nat), connectionAttempts = 0, initPromise = Some (Inr (Some 7)),
          delays = [1000], opened = 2 \<rparr> = take (2 - 1) [1000, 2000]"
proof -
  have e: "init True (\<lambda>k. if k = 1 then Inr 7 else Inl ''blocked'') (new_connection :: nat connection)
     = (Inr (Some 7),
        \<lparr> db = Some 7, connectionAttempts = 0, initPromise = Some (Inr (Some 7)),
          delays = [1000], opened = 2 \<rparr>)"
    unfolding init_new_connection by (simp add: new_connection_def)
  from init_retry_policy[OF e] show ?thesis
    using e by simp
qed

text \<open>
  Claim C4 as stated (three retries, with waits of 1 s, 2 s and 3 s) fails: when every
  attempt fails there are three attempts, two waits of 1000 and 2000 ms, and no wait of
  3000 ms before the fatal error.
\<close>

theorem init_backoff_counterexample:
  "init True (\<lambda>k. Inl ''blocked'') (new_connection :: nat connection)
     = (Inl ''Failed to initialize database after 3 attempts: blocked'',
        \<lparr> db = None, connectionAttempts = 3,
          initPromise = Some (Inl ''Failed to initialize database after 3 attempts: blocked''),
          delays = [1000, 2000], opened = 3 \<rparr>)"
  unfolding init_new_connection by (simp add: new_connection_def)

section \<open>What a save request leaves untouched\<close>

lemma await_settled_fields [simp]:
  "notesMap (await_settled r k st) = notesMap st"
  "foldersMap (await_settled r k st) = foldersMap st"
  "store (await_settled r k st) = store st"
  "queue (await_settled r k st) = queue st"
  "saveInProgress (await_settled r k st) = saveInProgress st"
  "loadInProgress (await_settled r k st) = loadInProgress st"
  "storageManager (await_settled r k st) = storageManager st"
  "dbOpen (await_settled r k st) = dbOpen st"
  "settled (await_settled r k st) = settled st"
  by (simp_all add: await_settled_def)

lemma storage_saveNotes_fields [simp]:
  "notesMap (storage_saveNotes ns fs k st) = notesMap st"
  "foldersMap (storage_saveNotes ns fs k st) = foldersMap st"
  "store (storage_saveNotes ns fs k st) = store st"
  "saveInProgress (storage_saveNotes ns fs k st) = saveInProgress st"
  "loadInProgress (storage_saveNotes ns fs k st) = loadInProgress st"
  "storageManager (storage_saveNotes ns fs k st) = storageManager st"
  "dbOpen (storage_saveNotes ns fs k st) = dbOpen st"
  "settled (storage_saveNotes ns fs k st) = settled st"
  by (simp_all add: storage_saveNotes_def)

lemma storage_call_fields [simp]:
  "notesMap (storage_call t k st) = notesMap st"
  "foldersMap (storage_call t k st) = foldersMap st"
  "store (storage_call t k st) = store st"
  "saveInProgress (storage_call t k st) = saveInProgress st"
  "loadInProgress (storage_call t k st) = loadInProgress st"
  "storageManager (storage_call t k st) = storageManager st"
  "dbOpen (storage_call t k st) = dbOpen st"
  "settled (storage_call t k st) = settled st"
  by (simp_all add: storage_call_def)

lemma saveNotes_from_fields [simp]:
  "notesMap (saveNotes_from k now st) = notesMap st"
  "foldersMap (saveNotes_from k now st) = foldersMap st"
  "store (saveNotes_from k now st) = store st"
  "loadInProgress (saveNotes_from k now st) = loadInProgress st"
  "storageManager (saveNotes_from k now st) = storageManager st"
  "dbOpen (saveNotes_from k now st) = dbOpen st"
  "settled (saveNotes_from k now st) = settled st"
  by (simp_all add: saveNotes_from_def)

section \<open>Folder validation\<close>


lemma trim_empty_iff: "trim s = [] \<longleftrightarrow> (\<forall>c\<in>set s. is_ws c)"
proof -
  have d: "(\<forall>c\<in>set (dropWhile is_ws s). is_ws c) \<longleftrightarrow> dropWhile is_ws s = []"
  proof
    assume a: "\<forall>c\<in>set (dropWhile is_ws s). is_ws c"
    show "dropWhile is_ws s = []"
    proof (rule ccontr)
      assume n: "dropWhile is_ws s \<noteq> []"
      then have "\<not> is_ws (hd (dropWhile is_ws s))"
        by (rule hd_dropWhile)
      moreover from n have "hd (dropWhile is_ws s) \<in> set (dropWhile is_ws s)"
        by simp
      ultimately show False
        using a by blast
    qed
  next
    assume e: "dropWhile is_ws s = []"
    show "\<forall>c\<in>set (dropWhile is_ws s). is_ws c"
      unfolding e by simp
  qed
  have "trim s = [] \<longleftrightarrow> dropWhile is_ws (rev (dropWhile is_ws s)) = []"
    by (simp add: trim_def)
  also have "\<dots> \<longleftrightarrow> (\<forall>c\<in>set (rev (dropWhile is_ws s)). is_ws c)"
    by (rule dropWhile_eq_Nil_conv)
  also have "\<dots> \<longleftrightarrow> (\<forall>c\<in>set (dropWhile is_ws s). is_ws c)"
    by (simp only: set_rev)
  also have "\<dots> \<longleftrightarrow> dropWhile is_ws s = []"
    by (rule d)
  also have "\<dots> \<longleftrightarrow> (\<forall>c\<in>set s. is_ws c)"
    by (rule dropWhile_eq_Nil_conv)
  finally show ?thesis .
qed











subsection \<open>Folders read by loadNotes\<close>

lemma load_note_fields [simp]:
  "foldersMap (load_note now r st) = foldersMap st"
  "settled (load_note now r st) = settled st"
  by (simp_all add: load_note_def split: sum.splits option.splits)

lemma fold_load_note_fields [simp]:
  "foldersMap (fold (load_note now) ns st) = foldersMap st"
  "settled (fold (load_note now) ns st) = settled st"
  by (induction ns arbitrary: st) simp_all

lemma load_folder_settled [simp]: "settled (load_folder now f st) = settled st"
  by (simp add: load_folder_def split: sum.splits option.splits)

lemma fold_load_folder_settled [simp]: "settled (fold (load_folder now) fs st) = settled st"
  by (induction fs arbitrary: st) simp_all












section \<open>Quoted phrases in the search engine\<close>

lemma str_includes_sublist: "str_includes s t \<longleftrightarrow> sublist t s"
  by (induction s) (auto simp: sublist_Cons_right)

lemma str_includes_iff: "str_includes s t \<longleftrightarrow> (\<exists>a b. s = a @ t @ b)"
  by (simp add: str_includes_sublist sublist_def)

lemma str_includes_append: "str_includes s t \<Longrightarrow> str_includes (a @ s @ b) t"
proof -
  assume "str_includes s t"
  then obtain p q where "s = p @ t @ q"
    unfolding str_includes_iff by blast
  then have "a @ s @ b = (a @ p) @ t @ (q @ b)"
    by simp
  then show ?thesis
    unfolding str_includes_iff by blast
qed

subsection \<open>The parser\<close>

lemma trim_ws_append: "\<forall>x\<in>set w. is_ws x \<Longrightarrow> trim (w @ c) = trim c"
proof -
  assume "\<forall>x\<in>set w. is_ws x"
  then have "dropWhile is_ws (w @ c) = dropWhile is_ws c"
    by (intro dropWhile_append2) blast
  then show ?thesis
    by (simp only: trim_def)
qed

lemma quoted_Cons: "quoted p = CHR 0x22 # p @ [CHR 0x22]"
  by (simp add: quoted_def)

lemma trim_quoted: "trim (quoted p) = quoted p"
  by (simp add: trim_def quoted_Cons is_ws_def)

text \<open>Blanks kept in \<open>current\<close> from before are trimmed away with the term.\<close>

lemma parse_loop_ws_current:
  "\<forall>x\<in>set w. is_ws x \<Longrightarrow> parse_loop s terms (w @ c) b = parse_loop s terms c b"
proof (induction s arbitrary: terms c b)
  case Nil
  then show ?case
    by (simp add: trim_ws_append)
next
  case (Cons x s)
  from Cons.prems have t: "trim (w @ c) = trim c"
    by (rule trim_ws_append)
  from Cons.IH[OF Cons.prems] show ?case
    by (simp add: t)
qed

lemma parse_loop_blank_current:
  assumes "trim c = []"
  shows "parse_loop s terms c b = parse_loop s terms [] b"
proof -
  from assms have "\<forall>x\<in>set c. is_ws x"
    by (simp only: trim_empty_iff)
  from parse_loop_ws_current[OF this, of s terms "[]" b] show ?thesis
    by simp
qed

lemma parse_loop_terms: "parse_loop s (T @ U) c b = T @ parse_loop s U c b"
  by (induction s arbitrary: U c b) simp_all

lemma parse_loop_terms_Nil: "parse_loop s T c b = T @ parse_loop s [] c b"
  using parse_loop_terms[of s T "[]" c b] by simp

text \<open>Inside quotes every character up to the closing quote joins the current term.\<close>

lemma parse_loop_in_quotes:
  "CHR 0x22 \<notin> set p \<Longrightarrow>
   parse_loop (p @ CHR 0x22 # rest) terms c True = parse_loop rest terms (c @ p @ [CHR 0x22]) False"
  by (induction p arbitrary: c) auto

text \<open>A blank after text with balanced quotes ends the term before it.\<close>

lemma parse_loop_space:
  "b = odd (count_list pre (CHR 0x22)) \<Longrightarrow>
   parse_loop (pre @ CHR '' '' # rest) terms c b
     = parse_loop rest (parse_loop pre terms c b) [] False"
proof (induction pre arbitrary: terms c b)
  case Nil
  then show ?case
    by (simp add: parse_loop_blank_current[of c rest terms False])
next
  case (Cons x pre)
  show ?case
  proof (cases "x = CHR 0x22")
    case True
    with Cons.prems have "(\<not> b) = odd (count_list pre (CHR 0x22))"
      by simp
    from Cons.IH[OF this, of terms "c @ [x]"] True show ?thesis
      by simp
  next
    case False
    with Cons.prems have b: "b = odd (count_list pre (CHR 0x22))"
      by simp
    from Cons.IH[OF b] False show ?thesis
      by auto
  qed
qed

lemma parse_quoted_then:
  assumes "CHR 0x22 \<notin> set p"
  shows "parse_loop (quoted p @ rest) terms [] False = parse_loop rest terms (quoted p) False"
  using parse_loop_in_quotes[OF assms, of rest terms "[CHR 0x22]"]
  by (simp add: quoted_Cons)

lemma parse_quoted_end:
  assumes "CHR 0x22 \<notin> set p"
  shows "parse_loop (quoted p) terms [] False = terms @ [quoted p]"
  using parse_quoted_then[OF assms, of "[]" terms]
  by (simp add: trim_quoted) (simp add: quoted_Cons)

lemma parse_quoted_space:
  assumes "CHR 0x22 \<notin> set p"
  shows "parse_loop (quoted p @ CHR '' '' # post) terms [] False
         = terms @ quoted p # parseSearchQuery post"
proof -
  have "parse_loop (quoted p @ CHR '' '' # post) terms [] False
        = parse_loop (CHR '' '' # post) terms (quoted p) False"
    by (rule parse_quoted_then[OF assms])
  also have "\<dots> = parse_loop post (terms @ [quoted p]) [] False"
    by (simp add: trim_quoted) (simp add: quoted_Cons)
  also have "\<dots> = (terms @ [quoted p]) @ parse_loop post [] [] False"
    by (rule parse_loop_terms_Nil)
  finally show ?thesis
    by (simp add: parseSearchQuery_def)
qed

lemma parseSearchQuery_quoted:
  assumes "CHR 0x22 \<notin> set p"
  shows "parseSearchQuery (quoted p) = [quoted p]"
    and "parseSearchQuery (quoted p @ '' '' @ post) = quoted p # parseSearchQuery post"
  using parse_quoted_end[OF assms, of "[]"] parse_quoted_space[OF assms, of post "[]"]
  by (simp_all add: parseSearchQuery_def)

lemma parseSearchQuery_quoted_inside:
  assumes "CHR 0x22 \<notin> set p" and "even (count_list pre (CHR 0x22))"
  shows "parseSearchQuery (pre @ '' '' @ quoted p) = parseSearchQuery pre @ [quoted p]"
    and "parseSearchQuery (pre @ '' '' @ quoted p @ '' '' @ post)
         = parseSearchQuery pre @ quoted p # parseSearchQuery post"
proof -
  from assms(2) have b: "False = odd (count_list pre (CHR 0x22))"
    by simp
  have "parseSearchQuery (pre @ '' '' @ quoted p)
        = parse_loop (quoted p) (parse_loop pre [] [] False) [] False"
    using parse_loop_space[OF b, of "quoted p" "[]" "[]"]
    by (simp add: parseSearchQuery_def)
  then show "parseSearchQuery (pre @ '' '' @ quoted p) = parseSearchQuery pre @ [quoted p]"
    by (simp add: parse_quoted_end[OF assms(1)] parseSearchQuery_def)
  have "parseSearchQuery (pre @ '' '' @ quoted p @ '' '' @ post)
        = parse_loop (quoted p @ CHR '' '' # post) (parse_loop pre [] [] False) [] False"
    using parse_loop_space[OF b, of "quoted p @ CHR '' '' # post" "[]" "[]"]
    by (simp add: parseSearchQuery_def)
  then show "parseSearchQuery (pre @ '' '' @ quoted p @ '' '' @ post)
         = parseSearchQuery pre @ quoted p # parseSearchQuery post"
    by (simp add: parse_quoted_space[OF assms(1)] parseSearchQuery_def)
qed

subsection \<open>Matching\<close>

lemma suffix_quoted: "suffix [CHR 0x22] (quoted p)"
  unfolding quoted_def by (rule suffixI[of _ "[CHR 0x22] @ p"]) simp

lemma term_matches_quoted:
  "term_matches strip fl n (quoted p) = str_includes (searchText strip fl n) (toLowerCase p)"
proof -
  have "\<not> prefix ''-'' (quoted p)" "prefix [CHR 0x22] (quoted p)"
       "butlast (drop 1 (quoted p)) = p"
    by (simp_all add: quoted_Cons butlast_append)
  then show ?thesis
    by (simp add: term_matches_def suffix_quoted noteContainsPhrase_def)
qed

lemma term_matches_minus_quoted:
  "term_matches strip fl n (''-'' @ quoted p)
     = (\<not> str_includes (searchText strip fl n) (toLowerCase (quoted p)))"
  by (simp add: term_matches_def noteContainsTerm_def)

lemma performTextSearch_quoted:
  assumes "CHR 0x22 \<notin> set p"
  shows "performTextSearch strip ns (quoted p) fl
     = filter (\<lambda>n. str_includes (searchText strip fl n) (toLowerCase p)) ns"
  by (simp add: performTextSearch_def parseSearchQuery_quoted(1)[OF assms] term_matches_quoted)

lemma performTextSearch_quoted_inside:
  assumes "CHR 0x22 \<notin> set p" and "even (count_list pre (CHR 0x22))"
  shows "performTextSearch strip ns (pre @ '' '' @ quoted p @ '' '' @ post) fl
     = filter (\<lambda>n. list_all (term_matches strip fl n) (parseSearchQuery pre)
                   \<and> str_includes (searchText strip fl n) (toLowerCase p)
                   \<and> list_all (term_matches strip fl n) (parseSearchQuery post)) ns"
  unfolding performTextSearch_def parseSearchQuery_quoted_inside(2)[OF assms]
  by (simp add: term_matches_quoted)

lemma searchText_field:
  assumes "(includeTitle fl \<and> str_includes (toLowerCase (title n)) t)
           \<or> (includeContent fl \<and> str_includes (toLowerCase (strip (content n))) t)
           \<or> (includeTags fl \<and> str_includes (toLowerCase (join_sp (tags n))) t)"
  shows "str_includes (searchText strip fl n) t"
proof -
  consider (t) "includeTitle fl" "str_includes (toLowerCase (title n)) t"
    | (c) "includeContent fl" "str_includes (toLowerCase (strip (content n))) t"
    | (g) "includeTags fl" "str_includes (toLowerCase (join_sp (tags n))) t"
    using assms by blast
  then show ?thesis
  proof cases
    case t
    have e: "searchText strip fl n = [] @ toLowerCase (title n)
            @ ('' '' @ (if includeContent fl then toLowerCase (strip (content n)) @ '' '' else [])
               @ (if includeTags fl then toLowerCase (join_sp (tags n)) else []))"
      using t(1) by (simp add: searchText_def)
    show ?thesis
      unfolding e using t(2) by (rule str_includes_append)
  next
    case c
    have e: "searchText strip fl n = (if includeTitle fl then toLowerCase (title n) @ '' '' else [])
            @ toLowerCase (strip (content n))
            @ ('' '' @ (if includeTags fl then toLowerCase (join_sp (tags n)) else []))"
      using c(1) by (simp add: searchText_def)
    show ?thesis
      unfolding e using c(2) by (rule str_includes_append)
  next
    case g
    have e: "searchText strip fl n
            = ((if includeTitle fl then toLowerCase (title n) @ '' '' else [])
               @ (if includeContent fl then toLowerCase (strip (content n)) @ '' '' else []))
              @ toLowerCase (join_sp (tags n)) @ []"
      using g(1) by (simp add: searchText_def)
    show ?thesis
      unfolding e using g(2) by (rule str_includes_append)
  qed
qed

lemma notes_for_release_no_match:
  "strip [] = [] \<Longrightarrow>
   \<not> str_includes (searchText strip fl (sample_note i ''notes for release'' c m)) ''release notes''"
  by (cases "includeTitle fl"; cases "includeContent fl"; cases "includeTags fl")
     (simp_all add: searchText_def sample_note_def toLowerCase_def lower_char_def)

lemma lower_release_notes: "toLowerCase ''release notes'' = ''release notes''"
  by code_simp

lemma quote_not_in_release_notes: "CHR 0x22 \<notin> set ''release notes''"
  by simp

lemma search_quoted:
  assumes "filterFolders fl = [] \<and> filterTags fl = [] \<and> dateFrom fl = None \<and> dateTo fl = None"
  shows "search strip ns (quoted p) fl = performTextSearch strip ns (quoted p) fl"
proof -
  have "quoted p \<noteq> [] \<and> trim (quoted p) \<noteq> []"
    unfolding trim_quoted by (simp add: quoted_Cons)
  with assms show ?thesis
    by (simp add: search_def applyFilters_def)
qed

text \<open>
  Claim C9. Write \<open>quoted p\<close> for a phrase \<open>p\<close> without double quotes, put between double
  quotes. The parser keeps \<open>quoted p\<close> together as one term, blanks inside included: when
  it is the whole query, when it starts or ends the query, and when it stands between
  blanks inside a longer query whose text before it has its quotes balanced; the terms
  before and after it are parsed as they would be alone. Such a term matches a note
  exactly when the note's search text (the enabled fields, case-folded and joined by
  blanks) contains the case-folded phrase, so performTextSearch on the query \<open>quoted p\<close>
  keeps exactly those notes, and in a longer query it keeps the notes that pass this
  test and the tests of the other terms. Every note of which some enabled field contains
  the case-folded phrase is kept. Without structural filters \<open>search\<close> returns just the
  result of performTextSearch. For the query \<open>"release notes"\<close>, a note whose only text
  is the title \<open>notes for release\<close> is dropped.

  A minus sign in front makes the term an exclusion term, not a phrase term: it is still
  parsed as one term, but the quotes then belong to the text that is looked for.
\<close>

theorem quoted_phrase_search:
  "(CHR 0x22 \<notin> set p \<longrightarrow>
      parseSearchQuery (quoted p) = [quoted p]
      \<and> parseSearchQuery (quoted p @ '' '' @ post) = quoted p # parseSearchQuery post
      \<and> (even (count_list pre (CHR 0x22)) \<longrightarrow>
           parseSearchQuery (pre @ '' '' @ quoted p) = parseSearchQuery pre @ [quoted p]
           \<and> parseSearchQuery (pre @ '' '' @ quoted p @ '' '' @ post)
               = parseSearchQuery pre @ quoted p # parseSearchQuery post
           \<and> performTextSearch strip ns (pre @ '' '' @ quoted p @ '' '' @ post) fl
               = filter (\<lambda>n. list_all (term_matches strip fl n) (parseSearchQuery pre)
                             \<and> str_includes (searchText strip fl n) (toLowerCase p)
                             \<and> list_all (term_matches strip fl n) (parseSearchQuery post)) ns)
      \<and> performTextSearch strip ns (quoted p) fl
          = filter (\<lambda>n. str_includes (searchText strip fl n) (toLowerCase p)) ns
      \<and> (n \<in> set ns
           \<and> ((includeTitle fl \<and> str_includes (toLowerCase (title n)) (toLowerCase p))
              \<or> (includeContent fl \<and> str_includes (toLowerCase (strip (content n))) (toLowerCase p))
              \<or> (includeTags fl \<and> str_includes (toLowerCase (join_sp (tags n))) (toLowerCase p)))
           \<longrightarrow> n \<in> set (performTextSearch strip ns (quoted p) fl))
      \<and> (filterFolders fl = [] \<and> filterTags fl = [] \<and> dateFrom fl = None \<and> dateTo fl = None \<longrightarrow>
           search strip ns (quoted p) fl = performTextSearch strip ns (quoted p) fl))
   \<and> term_matches strip fl n (quoted p) = str_includes (searchText strip fl n) (toLowerCase p)
   \<and> term_matches strip fl n (''-'' @ quoted p)
       = (\<not> str_includes (searchText strip fl n) (toLowerCase (quoted p)))
   \<and> (CHR 0x22 \<notin> set p \<longrightarrow> parseSearchQuery (''-'' @ quoted p) = [''-'' @ quoted p])
   \<and> (strip [] = [] \<longrightarrow>
        sample_note i ''notes for release'' c m
          \<notin> set (performTextSearch strip ns quoted_release_notes fl))"
proof -
  have inside: "parseSearchQuery (pre @ '' '' @ quoted p) = parseSearchQuery pre @ [quoted p]
           \<and> parseSearchQuery (pre @ '' '' @ quoted p @ '' '' @ post)
               = parseSearchQuery pre @ quoted p # parseSearchQuery post
           \<and> performTextSearch strip ns (pre @ '' '' @ quoted p @ '' '' @ post) fl
               = filter (\<lambda>n. list_all (term_matches strip fl n) (parseSearchQuery pre)
                             \<and> str_includes (searchText strip fl n) (toLowerCase p)
                             \<and> list_all (term_matches strip fl n) (parseSearchQuery post)) ns"
    if "CHR 0x22 \<notin> set p" "even (count_list pre (CHR 0x22))"
    using parseSearchQuery_quoted_inside[OF that] performTextSearch_quoted_inside[OF that]
    by blast
  have field: "n \<in> set (performTextSearch strip ns (quoted p) fl)"
    if q: "CHR 0x22 \<notin> set p"
    and a: "n \<in> set ns
           \<and> ((includeTitle fl \<and> str_includes (toLowerCase (title n)) (toLowerCase p))
              \<or> (includeContent fl \<and> str_includes (toLowerCase (strip (content n))) (toLowerCase p))
              \<or> (includeTags fl \<and> str_includes (toLowerCase (join_sp (tags n))) (toLowerCase p)))"
  proof -
    from a have "str_includes (searchText strip fl n) (toLowerCase p)"
      by (intro searchText_field) blast
    with a show ?thesis
      unfolding performTextSearch_quoted[OF q] by simp
  qed
  have minus: "parseSearchQuery (''-'' @ quoted p) = [''-'' @ quoted p]"
    if q: "CHR 0x22 \<notin> set p"
  proof -
    have "parseSearchQuery (''-'' @ quoted p) = parse_loop (p @ CHR 0x22 # []) [] (''-'' @ [CHR 0x22]) True"
      by (simp add: parseSearchQuery_def quoted_Cons)
    also have "\<dots> = parse_loop [] [] (''-'' @ quoted p) False"
      unfolding parse_loop_in_quotes[OF q] by (simp add: quoted_Cons)
    also have "\<dots> = [''-'' @ quoted p]"
      by (simp add: trim_def quoted_Cons is_ws_def)
    finally show ?thesis .
  qed
  have example: "sample_note i ''notes for release'' c m
          \<notin> set (performTextSearch strip ns quoted_release_notes fl)"
    if "strip [] = []"
    unfolding quoted_release_notes_def performTextSearch_quoted[OF quote_not_in_release_notes]
      lower_release_notes
    using notes_for_release_no_match[where strip = strip and fl = fl and i = i and c = c and m = m] that by simp
  from parseSearchQuery_quoted(1)[of p] parseSearchQuery_quoted(2)[of p post] inside performTextSearch_quoted[of p strip ns fl]
       field search_quoted[of fl strip ns p]
       term_matches_quoted[of strip fl n p] term_matches_minus_quoted[of strip fl n p]
       minus example
  show ?thesis
    by blast
qed

text \<open>
  Of a note titled \<open>Release Notes v2\<close> and a note titled \<open>notes for release\<close> the query
  \<open>"release notes"\<close> finds the first and not the second; and the query
  \<open>urgent "release notes" -draft\<close> has three terms, the phrase being the second.
\<close>

theorem quoted_phrase_search_witness:
  "str_includes (toLowerCase (title (sample_note ''n1'' ''Release Notes v2'' 1 2))) ''release notes''
   \<and> sample_note ''n1'' ''Release Notes v2'' 1 2
       \<in> set (search (\<lambda>s. s)
                 [sample_note ''n1'' ''Release Notes v2'' 1 2, sample_note ''n2'' ''notes for release'' 1 2]
                 quoted_release_notes default_filters)
   \<and> sample_note ''n2'' ''notes for release'' 1 2
       \<notin> set (search (\<lambda>s. s)
                 [sample_note ''n1'' ''Release Notes v2'' 1 2, sample_note ''n2'' ''notes for release'' 1 2]
                 quoted_release_notes default_filters)
   \<and> parseSearchQuery (''urgent'' @ '' '' @ quoted ''release notes'' @ '' '' @ ''-draft'')
       = [''urgent'', quoted ''release notes'', ''-draft'']"
proof -
  let ?n1 = "sample_note ''n1'' ''Release Notes v2'' 1 2"
  let ?ns = "[sample_note ''n1'' ''Release Notes v2'' 1 2, sample_note ''n2'' ''notes for release'' 1 2]"
  have h0: "CHR 0x22 \<notin> set ''release notes''"
    by simp
  have h1: "str_includes (toLowerCase (title ?n1)) ''release notes''"
    by code_simp
  have h2: "?n1 \<in> set ?ns \<and> includeTitle default_filters"
    by (simp add: default_filters_def)
  have h3: "filterFolders default_filters = [] \<and> filterTags default_filters = []
            \<and> dateFrom default_filters = None \<and> dateTo default_filters = None"
    by (simp add: default_filters_def)
  have h4: "(\<lambda>s::string. s) [] = []"
    by simp
  have h5: "even (count_list ''urgent'' (CHR 0x22))"
    by simp
  have l: "toLowerCase ''release notes'' = ''release notes''"
    by code_simp
  have p: "parseSearchQuery ''urgent'' = [''urgent'']" "parseSearchQuery ''-draft'' = [''-draft'']"
    by code_simp+
  note inst = quoted_phrase_search
                [where p = "''release notes''" and strip = "\<lambda>s. s" and ns = ?ns
                   and fl = default_filters and n = ?n1 and i = "''n2''" and c = 1 and m = 2
                   and pre = "''urgent''" and post = "''-draft''"]
  from inst h0 h1 h2 have c1:
    "?n1 \<in> set (performTextSearch (\<lambda>s. s) ?ns (quoted ''release notes'') default_filters)"
    unfolding l by blast
  from inst h4 have c2: "sample_note ''n2'' ''notes for release'' 1 2
          \<notin> set (performTextSearch (\<lambda>s. s) ?ns quoted_release_notes default_filters)"
    by blast
  from inst h0 h3 have c3: "search (\<lambda>s. s) ?ns (quoted ''release notes'') default_filters
          = performTextSearch (\<lambda>s. s) ?ns (quoted ''release notes'') default_filters"
    by blast
  from inst h0 h5 have c4:
    "parseSearchQuery (''urgent'' @ '' '' @ quoted ''release notes'' @ '' '' @ ''-draft'')
       = parseSearchQuery ''urgent'' @ quoted ''release notes'' # parseSearchQuery ''-draft''"
    by blast
  from c4 have c4':
    "parseSearchQuery (''urgent'' @ '' '' @ quoted ''release notes'' @ '' '' @ ''-draft'')
       = [''urgent'', quoted ''release notes'', ''-draft'']"
    unfolding p by simp
  from c1 c2 c3 have "?n1 \<in> set (search (\<lambda>s. s) ?ns quoted_release_notes default_filters)
      \<and> sample_note ''n2'' ''notes for release'' 1 2
          \<notin> set (search (\<lambda>s. s) ?ns quoted_release_notes default_filters)"
    unfolding quoted_release_notes_def by simp
  with h1 c4' show ?thesis
    by blast
qed

section \<open>Timestamps\<close>

lemma notes_get_set: "notes_get (notes_set v ns) (noteId v) = Some v"
proof (cases "noteId v \<in> set (map noteId ns)")
  case True
  then have "find (\<lambda>x. noteId x = noteId v) (map (\<lambda>x. if noteId x = noteId v then v else x) ns) = Some v"
    by (induction ns) auto
  with True show ?thesis by (simp add: notes_get_def notes_set_def)
next
  case False
  then have "find (\<lambda>x. noteId x = noteId v) (ns @ [v]) = Some v"
    by (induction ns) auto
  with False show ?thesis by (simp add: notes_get_def notes_set_def)
qed

lemma notes_has_set: "notes_has (notes_set v ns) (JStr (noteId v))"
  by (auto simp: notes_has_def notes_set_def)

lemma validateNote_timestamps:
  "validateNote now fs (Some r) strict = Inr (Some v) \<Longrightarrow>
     createdAt v = (case rawCreatedAt r of Some t \<Rightarrow> t | None \<Rightarrow> now 0)
     \<and> modifiedAt v = (case rawModifiedAt r of Some t \<Rightarrow> t | None \<Rightarrow> now 1)"
  by (auto simp: validateNote_def split: jsval.splits if_splits)

lemma validateNote_strict_accepts:
  "rawId r = JStr i \<Longrightarrow> i \<noteq> [] \<Longrightarrow>
   \<exists>v. validateNote now fs (Some r) strict = Inr (Some v) \<and> noteId v = i
       \<and> createdAt v = (case rawCreatedAt r of Some t \<Rightarrow> t | None \<Rightarrow> now 0)
       \<and> isDirty v = truthy (rawIsDirty r)"
  by (simp add: validateNote_def)

lemma updateNote_cached:
  assumes "rawId r = JStr i" and "i \<noteq> []" and "notes_has (notesMap st) (JStr i)"
  shows "\<exists>v. notes_get (notesMap (updateNote_from k now (Some r) st)) i = Some v
            \<and> noteId v = i
            \<and> createdAt v = (case rawCreatedAt r of Some t \<Rightarrow> t | None \<Rightarrow> now 0)
            \<and> modifiedAt v = now 2
            \<and> isDirty v = truthy (rawIsDirty r)
            \<and> notes_has (notesMap (updateNote_from k now (Some r) st)) (JStr i)"
proof -
  from validateNote_strict_accepts[OF assms(1,2), of now "foldersMap st" True]
  obtain v where v: "validateNote now (foldersMap st) (Some r) True = Inr (Some v)"
    and i: "noteId v = i"
    and c: "createdAt v = (case rawCreatedAt r of Some t \<Rightarrow> t | None \<Rightarrow> now 0)"
    and d: "isDirty v = truthy (rawIsDirty r)"
    by blast
  let ?v = "v\<lparr> modifiedAt := now 2 \<rparr>"
  have m: "notesMap (updateNote_from k now (Some r) st) = notes_set ?v (notesMap st)"
    using assms v by (simp add: updateNote_from_def)
  have "notes_get (notes_set ?v (notesMap st)) (noteId ?v) = Some ?v"
    by (rule notes_get_set)
  moreover have "notes_has (notes_set ?v (notesMap st)) (JStr (noteId ?v))"
    by (rule notes_has_set)
  ultimately show ?thesis
    unfolding m using i c d by auto
qed

lemma trim_Plan: "trim ''Plan'' = ''Plan''"
  by (simp add: trim_def is_ws_def)

lemma validate_sample:
  "validateNote now [] (Some (raw_of (sample_note i t c m))) strict
    = (if i = [] then (if strict then Inl ''Note ID is required and must be a string'' else Inr None)
       else Inr (Some ((sample_note i t c m)\<lparr> title := take 500 (trim t) \<rparr>)))"
  by (simp add: validateNote_def raw_of_def sample_note_def sanitizeTitle_def js_or_def
        sanitizeContent_def validateColor_def hexColorRegex_def is_hex_def validateTags_def
        first_occurrences_def maxTagsPerNote_def validateFolderId_def validateMetadata_def
        array_or_empty_def substring0_def maxTitleLength_def maxNoteSize_def)

lemma raw_of_sample_created:
  "(raw_of (sample_note i t c m))\<lparr> rawCreatedAt := Some c' \<rparr> = raw_of (sample_note i t c' m)"
  by (simp add: raw_of_def sample_note_def)

lemma sample_title: "(sample_note i t c m)\<lparr> title := t' \<rparr> = sample_note i t' c m"
  by (simp add: sample_note_def)

lemma sample_modified: "(sample_note i t c m)\<lparr> modifiedAt := m' \<rparr> = sample_note i t c m'"
  by (simp add: sample_note_def)

lemma rawId_raw_of [simp]: "rawId (raw_of n) = JStr (noteId n)"
  by (simp add: raw_of_def)

lemma sample_id [simp]: "noteId (sample_note i t c m) = i"
  by (simp add: sample_note_def)

lemma createNote_timestamps:
  "createNote now fresh arg st = (Inr w, st') \<Longrightarrow> createdAt w = now 0 \<and> modifiedAt w = now 1"
  by (auto simp: createNote_def Let_def validateNote_def generateId_def split: sum.splits)

lemma updateNote_twice:
  assumes "rawId r = JStr i" and "i \<noteq> []" and "notes_has (notesMap st) (JStr i)"
  shows "\<exists>v1 v2.
           notes_get (notesMap (updateNote l now (Some r) st)) i = Some v1
           \<and> notes_get (notesMap (updateNote l now2 (Some (raw_of v1))
                                    (updateNote l now (Some r) st))) i = Some v2
           \<and> createdAt v1 = (case rawCreatedAt r of Some t \<Rightarrow> t | None \<Rightarrow> now 0)
           \<and> modifiedAt v1 = now 2
           \<and> createdAt v2 = createdAt v1
           \<and> modifiedAt v2 = now2 2"
proof -
  let ?st1 = "updateNote l now (Some r) st"
  from updateNote_cached[OF assms, of "[Caller l]" now]
  obtain v1 where v1: "notes_get (notesMap ?st1) i = Some v1" "noteId v1 = i"
      "createdAt v1 = (case rawCreatedAt r of Some t \<Rightarrow> t | None \<Rightarrow> now 0)" "modifiedAt v1 = now 2"
      "notes_has (notesMap ?st1) (JStr i)"
    unfolding updateNote_def by blast
  have r1: "rawId (raw_of v1) = JStr i"
    using v1(2) by simp
  have r2: "rawCreatedAt (raw_of v1) = Some (createdAt v1)"
    by (simp add: raw_of_def)
  from updateNote_cached[OF r1 assms(2) v1(5), of "[Caller l]" now2]
  obtain v2 where v2: "notes_get (notesMap (updateNote l now2 (Some (raw_of v1)) ?st1)) i = Some v2"
      "createdAt v2 = createdAt v1" "modifiedAt v2 = now2 2"
    unfolding updateNote_def r2 by auto
  from v1 v2 show ?thesis by blast
qed

text \<open>
  Claim C8, as the code has it, for timestamps that are valid dates. Validation keeps
  the timestamps it is given and reads a missing one from the clock; it does not compare
  them. createNote reads the clock twice, first for \<open>createdAt\<close>, then for \<open>modifiedAt\<close>:
  on a clock that does not go back the new note has \<open>createdAt \<le> modifiedAt\<close>. updateNote
  keeps the creation time it is passed and sets \<open>modifiedAt\<close> to its own clock reading:
  when the note is updated again with the cached copy, at a clock that has not gone
  back, \<open>createdAt\<close> is unchanged and \<open>modifiedAt\<close> does not decrease; and
  \<open>modifiedAt \<ge> createdAt\<close> holds after these updates when the creation time is not
  later than the clock.
\<close>

theorem timestamps_kept_and_bumped:
  "(validateNote now fs (Some r) strict = Inr (Some v) \<longrightarrow>
      createdAt v = (case rawCreatedAt r of Some t \<Rightarrow> t | None \<Rightarrow> now 0)
      \<and> modifiedAt v = (case rawModifiedAt r of Some t \<Rightarrow> t | None \<Rightarrow> now 1))
   \<and> (createNote now fresh arg st0 = (Inr w, st') \<longrightarrow>
        createdAt w = now 0 \<and> modifiedAt w = now 1 \<and> (now 0 \<le> now 1 \<longrightarrow> createdAt w \<le> modifiedAt w))
   \<and> (rawId r = JStr i \<and> i \<noteq> [] \<and> notes_has (notesMap st) (JStr i) \<and> now 2 \<le> now2 2 \<longrightarrow>
        (\<exists>v1 v2.
           notes_get (notesMap (updateNote l now (Some r) st)) i = Some v1
           \<and> notes_get (notesMap (updateNote l now2 (Some (raw_of v1))
                                    (updateNote l now (Some r) st))) i = Some v2
           \<and> createdAt v1 = (case rawCreatedAt r of Some t \<Rightarrow> t | None \<Rightarrow> now 0)
           \<and> modifiedAt v1 = now 2
           \<and> createdAt v2 = createdAt v1
           \<and> modifiedAt v2 = now2 2
           \<and> modifiedAt v1 \<le> modifiedAt v2
           \<and> (createdAt v1 \<le> now 2 \<longrightarrow> createdAt v1 \<le> modifiedAt v1 \<and> createdAt v2 \<le> modifiedAt v2)))"
proof -
  have a: "validateNote now fs (Some r) strict = Inr (Some v) \<longrightarrow>
      createdAt v = (case rawCreatedAt r of Some t \<Rightarrow> t | None \<Rightarrow> now 0)
      \<and> modifiedAt v = (case rawModifiedAt r of Some t \<Rightarrow> t | None \<Rightarrow> now 1)"
    using validateNote_timestamps by blast
  have b: "createNote now fresh arg st0 = (Inr w, st') \<longrightarrow>
        createdAt w = now 0 \<and> modifiedAt w = now 1 \<and> (now 0 \<le> now 1 \<longrightarrow> createdAt w \<le> modifiedAt w)"
    using createNote_timestamps[of now fresh arg st0 w st'] by auto
  have c: "\<exists>v1 v2.
           notes_get (notesMap (updateNote l now (Some r) st)) i = Some v1
           \<and> notes_get (notesMap (updateNote l now2 (Some (raw_of v1))
                                    (updateNote l now (Some r) st))) i = Some v2
           \<and> createdAt v1 = (case rawCreatedAt r of Some t \<Rightarrow> t | None \<Rightarrow> now 0)
           \<and> modifiedAt v1 = now 2
           \<and> createdAt v2 = createdAt v1
           \<and> modifiedAt v2 = now2 2
           \<and> modifiedAt v1 \<le> modifiedAt v2
           \<and> (createdAt v1 \<le> now 2 \<longrightarrow> createdAt v1 \<le> modifiedAt v1 \<and> createdAt v2 \<le> modifiedAt v2)"
    if h: "rawId r = JStr i \<and> i \<noteq> [] \<and> notes_has (notesMap st) (JStr i) \<and> now 2 \<le> now2 2"
  proof -
    from h updateNote_twice[of r i st l now now2]
    obtain v1 v2 where
      "notes_get (notesMap (updateNote l now (Some r) st)) i = Some v1"
      "notes_get (notesMap (updateNote l now2 (Some (raw_of v1))
                                    (updateNote l now (Some r) st))) i = Some v2"
      "createdAt v1 = (case rawCreatedAt r of Some t \<Rightarrow> t | None \<Rightarrow> now 0)"
      "modifiedAt v1 = now 2" "createdAt v2 = createdAt v1" "modifiedAt v2 = now2 2"
      by blast
    with h show ?thesis
      by (intro exI[of _ v1] exI[of _ v2]) auto
  qed
  from a b c show ?thesis by blast
qed

text \<open>
  The cached note \<open>n1\<close>, created at 10, is updated by a call whose clock reads 30, 31,
  32 and again by one whose clock reads 40, 41, 42: it keeps its creation time while
  \<open>modifiedAt\<close> goes from 32 to 42. A note created by a call whose clock reads 30 and
  then 31 carries these two times.
\<close>

theorem timestamps_kept_and_bumped_witness:
  "validateNote (\<lambda>k. 30 + int k) [] (Some (raw_of (sample_note ''n1'' ''Plan'' 10 20))) True
     = Inr (Some (sample_note ''n1'' ''Plan'' 10 20))
   \<and> createNote (\<lambda>k. 30 + int k) ''a1'' (NotOptions JUndefined) empty_repo
     = (Inr (sample_note ''note_a1'' [] 30 31),
        empty_repo\<lparr> notesMap := [sample_note ''note_a1'' [] 30 31] \<rparr>)
   \<and> createdAt (sample_note ''note_a1'' [] 30 31) = 30
   \<and> modifiedAt (sample_note ''note_a1'' [] 30 31) = 31
   \<and> createdAt (sample_note ''note_a1'' [] 30 31) \<le> modifiedAt (sample_note ''note_a1'' [] 30 31)
   \<and> notes_has (notesMap one_note_repo) (JStr ''n1'')
   \<and> (\<exists>v1 v2.
         notes_get (notesMap (updateNote ''u'' (\<lambda>k. 30 + int k)
                                (Some (raw_of (sample_note ''n1'' ''Plan'' 10 20)))
                                one_note_repo)) ''n1'' = Some v1
         \<and> notes_get (notesMap (updateNote ''u'' (\<lambda>k. 40 + int k) (Some (raw_of v1))
                                  (updateNote ''u'' (\<lambda>k. 30 + int k)
                                     (Some (raw_of (sample_note ''n1'' ''Plan'' 10 20)))
                                     one_note_repo))) ''n1'' = Some v2
         \<and> createdAt v1 = 10 \<and> modifiedAt v1 = 32 \<and> createdAt v2 = 10 \<and> modifiedAt v2 = 42)"
proof -
  let ?now = "\<lambda>k. 30 + int k"
  let ?now2 = "\<lambda>k. 40 + int k"
  let ?r = "raw_of (sample_note ''n1'' ''Plan'' 10 20)"
  let ?w = "sample_note ''note_a1'' [] 30 31"
  have h1: "validateNote ?now [] (Some ?r) True = Inr (Some (sample_note ''n1'' ''Plan'' 10 20))"
    by (simp add: validate_sample trim_Plan sample_title)
  have h2: "createNote ?now ''a1'' (NotOptions JUndefined) empty_repo
     = (Inr ?w, empty_repo\<lparr> notesMap := [?w] \<rparr>)"
    by (simp add: createNote_def no_options_def js_or_def sanitizeTitle_def sanitizeContent_def
          validateColor_def hexColorRegex_def is_hex_def validateTags_def first_occurrences_def
          maxTagsPerNote_def validateFolderId_def generateId_def validateNote_def
          validateMetadata_def array_or_empty_def substring0_def maxTitleLength_def maxNoteSize_def
          trim_def sample_note_def empty_repo_def notes_set_def saveNotes_from_def
          await_settled_def Let_def)
  have h3: "rawId ?r = JStr ''n1'' \<and> ''n1'' \<noteq> [] \<and> notes_has (notesMap one_note_repo) (JStr ''n1'')
            \<and> ?now 2 \<le> ?now2 2"
    by (simp add: one_note_repo_def attached_repo_def empty_repo_def notes_has_def)
  have h4: "rawCreatedAt ?r = Some 10"
    by (simp add: raw_of_def sample_note_def)
  have h5: "?now 0 \<le> ?now 1"
    by simp
  note inst = timestamps_kept_and_bumped
                [where now = ?now and fs = "[]" and r = ?r and strict = True
                   and v = "sample_note ''n1'' ''Plan'' 10 20" and fresh = "''a1''"
                   and arg = "NotOptions JUndefined" and ?st0.0 = empty_repo and w = ?w
                   and st' = "empty_repo\<lparr> notesMap := [?w] \<rparr>" and i = "''n1''"
                   and st = one_note_repo and ?now2.0 = ?now2 and l = "''u''"]
  from inst h2 h5 have c2: "createdAt ?w = ?now 0 \<and> modifiedAt ?w = ?now 1 \<and> createdAt ?w \<le> modifiedAt ?w"
    by blast
  from inst h3 have c3: "\<exists>v1 v2.
         notes_get (notesMap (updateNote ''u'' ?now (Some ?r) one_note_repo)) ''n1'' = Some v1
         \<and> notes_get (notesMap (updateNote ''u'' ?now2 (Some (raw_of v1))
                                  (updateNote ''u'' ?now (Some ?r) one_note_repo))) ''n1'' = Some v2
         \<and> createdAt v1 = (case rawCreatedAt ?r of Some t \<Rightarrow> t | None \<Rightarrow> ?now 0)
         \<and> modifiedAt v1 = ?now 2 \<and> createdAt v2 = createdAt v1 \<and> modifiedAt v2 = ?now2 2"
    by blast
  then have c3': "\<exists>v1 v2.
         notes_get (notesMap (updateNote ''u'' ?now (Some ?r) one_note_repo)) ''n1'' = Some v1
         \<and> notes_get (notesMap (updateNote ''u'' ?now2 (Some (raw_of v1))
                                  (updateNote ''u'' ?now (Some ?r) one_note_repo))) ''n1'' = Some v2
         \<and> createdAt v1 = 10 \<and> modifiedAt v1 = 32 \<and> createdAt v2 = 10 \<and> modifiedAt v2 = 42"
    unfolding h4 by auto
  from c2 have c2': "createdAt ?w = 30 \<and> modifiedAt ?w = 31 \<and> createdAt ?w \<le> modifiedAt ?w"
    by simp
  from h1 h2 c2' h3 c3' show ?thesis by blast
qed

text \<open>
  Claim C8 as stated fails. A stored note created at 2000 and modified at 1000 is
  admitted by loadNotes as it is; and an update that passes an earlier creation time
  moves \<open>createdAt\<close> of the cached note back from 10 to 5.
\<close>

theorem bulk_load_timestamps_counterexample:
  "notesMap (step (\<lambda>k. 5) (\<lambda>t. None)
       (loadNotes ''l''
          (attached_repo\<lparr> store := \<lparr> notesStore = [raw_of (sample_note ''n1'' ''Plan'' 2000 1000)],
                                     foldersStore = [] \<rparr> \<rparr>)))
     = [sample_note ''n1'' ''Plan'' 2000 1000]
   \<and> notesMap one_note_repo = [sample_note ''n1'' ''Plan'' 10 20]
   \<and> notesMap (updateNote ''u'' (\<lambda>k. 30)
                  (Some ((raw_of (sample_note ''n1'' ''Plan'' 10 20))\<lparr> rawCreatedAt := Some 5 \<rparr>))
                  one_note_repo)
     = [sample_note ''n1'' ''Plan'' 5 30]"
proof -
  have a: "notesMap (step (\<lambda>k. 5) (\<lambda>t. None)
       (loadNotes ''l''
          (attached_repo\<lparr> store := \<lparr> notesStore = [raw_of (sample_note ''n1'' ''Plan'' 2000 1000)],
                                     foldersStore = [] \<rparr> \<rparr>)))
     = [sample_note ''n1'' ''Plan'' 2000 1000]"
    by (simp add: loadNotes_def loadNotes_from_def storage_call_def attached_repo_def empty_repo_def
          step_def populate_def load_note_def validate_sample trim_Plan notes_set_def sample_title)
  have b: "notesMap one_note_repo = [sample_note ''n1'' ''Plan'' 10 20]"
    by (simp add: one_note_repo_def attached_repo_def empty_repo_def)
  have f: "foldersMap one_note_repo = []"
    by (simp add: one_note_repo_def attached_repo_def empty_repo_def)
  have c: "notesMap (updateNote ''u'' (\<lambda>k. 30)
                  (Some ((raw_of (sample_note ''n1'' ''Plan'' 10 20))\<lparr> rawCreatedAt := Some 5 \<rparr>))
                  one_note_repo)
     = [sample_note ''n1'' ''Plan'' 5 30]"
    unfolding raw_of_sample_created
    by (simp add: updateNote_def updateNote_from_def b f validate_sample trim_Plan notes_has_def
          notes_set_def sample_title sample_modified)
  from a b c show ?thesis by blast
qed

section \<open>Updating a note\<close>







lemma raw_of_times [simp]:
  "rawCreatedAt (raw_of n) = Some (createdAt n)" "rawModifiedAt (raw_of n) = Some (modifiedAt n)"
  by (simp_all add: raw_of_def)




















section \<open>Deleting a folder\<close>

lemma validateNote_folderId:
  "validateNote now fs (Some r) strict = Inr (Some v) \<Longrightarrow>
     folderId v = validateFolderId fs (rawFolderId r) \<and> rawId r = JStr (noteId v) \<and> noteId v \<noteq> []"
  by (auto simp: validateNote_def split: jsval.splits if_splits)

lemma raw_of_detached [simp]:
  "rawFolderId (raw_of (n\<lparr> folderId := None \<rparr>)) = JNull"
  "rawId (raw_of (n\<lparr> folderId := None \<rparr>)) = JStr (noteId n)"
  by (simp_all add: raw_of_def)

lemma updateNote_from_folders [simp]:
  "foldersMap (updateNote_from k now arg st) = foldersMap st"
  by (auto simp: updateNote_from_def split: option.splits sum.splits)

text \<open>What updateNote does to the cache: nothing, or one validated copy put in place.\<close>

lemma updateNote_from_notesMap:
  "notesMap (updateNote_from k now (Some r) st) = notesMap st
   \<or> (\<exists>v. validateNote now (foldersMap st) (Some r) True = Inr (Some v)
          \<and> notes_has (notesMap st) (rawId r)
          \<and> notesMap (updateNote_from k now (Some r) st)
              = notes_set (v\<lparr> modifiedAt := now 2 \<rparr>) (notesMap st))"
  by (auto simp: updateNote_from_def split: option.splits sum.splits)

lemma notes_set_present:
  "noteId v \<in> set (map noteId ns) \<Longrightarrow>
   notes_set v ns = map (\<lambda>x. if noteId x = noteId v then v else x) ns"
  by (simp add: notes_set_def)

lemma detach_note_map:
  "\<exists>h. notesMap (detach_note now n st) = map h (notesMap st)
       \<and> foldersMap (detach_note now n st) = foldersMap st
       \<and> (\<forall>x. noteId (h x) = noteId x
              \<and> (h x = x \<or> (folderId (h x) = None \<and> noteId x = noteId n))
              \<and> (noteId x = noteId n \<longrightarrow> folderId (h x) = None)
              \<and> (folderId x = None \<longrightarrow> folderId (h x) = None))"
proof -
  let ?mut = "\<lambda>x. if noteId x = noteId n then x\<lparr> folderId := None \<rparr> else x"
  let ?st1 = "st\<lparr> notesMap := map ?mut (notesMap st) \<rparr>"
  let ?r = "raw_of (n\<lparr> folderId := None \<rparr>)"
  have d: "detach_note now n st = updateNote_from [] now (Some ?r) ?st1"
    by (simp add: detach_note_def)
  have f: "foldersMap (detach_note now n st) = foldersMap st"
    unfolding d by simp
  from updateNote_from_notesMap[of "[]" now ?r ?st1]
  consider (same) "notesMap (detach_note now n st) = map ?mut (notesMap st)"
    | (put) v where "validateNote now (foldersMap st) (Some ?r) True = Inr (Some v)"
        "notes_has (map ?mut (notesMap st)) (JStr (noteId n))"
        "notesMap (detach_note now n st) = notes_set (v\<lparr> modifiedAt := now 2 \<rparr>) (map ?mut (notesMap st))"
    unfolding d by auto
  then show ?thesis
  proof cases
    case same
    have "\<forall>x. noteId (?mut x) = noteId x
              \<and> (?mut x = x \<or> (folderId (?mut x) = None \<and> noteId x = noteId n))
              \<and> (noteId x = noteId n \<longrightarrow> folderId (?mut x) = None)
              \<and> (folderId x = None \<longrightarrow> folderId (?mut x) = None)"
      by simp
    with same f show ?thesis by blast
  next
    case put
    from validateNote_folderId[OF put(1)]
    have v: "folderId v = None" "noteId v = noteId n"
      by (simp_all add: validateFolderId_def)
    let ?v = "v\<lparr> modifiedAt := now 2 \<rparr>"
    let ?h = "\<lambda>x. if noteId x = noteId n then ?v else x"
    from put(2) have "noteId ?v \<in> set (map noteId (map ?mut (notesMap st)))"
      using v(2) by (simp add: notes_has_def)
    from notes_set_present[OF this]
    have "notes_set ?v (map ?mut (notesMap st))
            = map (\<lambda>x. if noteId x = noteId ?v then ?v else x) (map ?mut (notesMap st))"
      .
    also have "\<dots> = map ?h (notesMap st)"
      using v(2) by (simp add: comp_def)
    finally have m: "notesMap (detach_note now n st) = map ?h (notesMap st)"
      using put(3) by simp
    have "\<forall>x. noteId (?h x) = noteId x
              \<and> (?h x = x \<or> (folderId (?h x) = None \<and> noteId x = noteId n))
              \<and> (noteId x = noteId n \<longrightarrow> folderId (?h x) = None)
              \<and> (folderId x = None \<longrightarrow> folderId (?h x) = None)"
      using v by simp
    with m f show ?thesis by blast
  qed
qed

lemma fold_detach_note_map:
  "\<exists>h. notesMap (fold (detach_note now) ms st) = map h (notesMap st)
       \<and> foldersMap (fold (detach_note now) ms st) = foldersMap st
       \<and> (\<forall>x. noteId (h x) = noteId x
              \<and> (h x = x \<or> (folderId (h x) = None \<and> noteId x \<in> noteId ` set ms))
              \<and> (noteId x \<in> noteId ` set ms \<longrightarrow> folderId (h x) = None)
              \<and> (folderId x = None \<longrightarrow> folderId (h x) = None))"
proof (induction ms arbitrary: st)
  case Nil
  have "notesMap st = map (\<lambda>x. x) (notesMap st)" by simp
  then show ?case
    by (intro exI[of _ "\<lambda>x. x"]) simp
next
  case (Cons m ms)
  from detach_note_map[of now m st]
  obtain h where h: "notesMap (detach_note now m st) = map h (notesMap st)"
    "foldersMap (detach_note now m st) = foldersMap st"
    "\<And>x. noteId (h x) = noteId x"
    "\<And>x. h x = x \<or> (folderId (h x) = None \<and> noteId x = noteId m)"
    "\<And>x. noteId x = noteId m \<Longrightarrow> folderId (h x) = None"
    "\<And>x. folderId x = None \<Longrightarrow> folderId (h x) = None"
    by blast
  from Cons.IH[of "detach_note now m st"]
  obtain g where g: "notesMap (fold (detach_note now) ms (detach_note now m st))
                       = map g (notesMap (detach_note now m st))"
    "foldersMap (fold (detach_note now) ms (detach_note now m st)) = foldersMap (detach_note now m st)"
    "\<And>x. noteId (g x) = noteId x"
    "\<And>x. g x = x \<or> (folderId (g x) = None \<and> noteId x \<in> noteId ` set ms)"
    "\<And>x. noteId x \<in> noteId ` set ms \<Longrightarrow> folderId (g x) = None"
    "\<And>x. folderId x = None \<Longrightarrow> folderId (g x) = None"
    by blast
  let ?k = "\<lambda>x. g (h x)"
  have a: "notesMap (fold (detach_note now) (m # ms) st) = map ?k (notesMap st)"
    using g(1) h(1) by (simp add: comp_def)
  have b: "foldersMap (fold (detach_note now) (m # ms) st) = foldersMap st"
    using g(2) h(2) by simp
  have c1: "noteId (?k x) = noteId x" for x
    using g(3) h(3) by simp
  have c2: "?k x = x \<or> (folderId (?k x) = None \<and> noteId x \<in> noteId ` set (m # ms))" for x
  proof (cases "h x = x")
    case True
    with g(4)[of x] show ?thesis by auto
  next
    case False
    with h(4)[of x] have "folderId (h x) = None" "noteId x = noteId m" by auto
    with g(6)[of "h x"] show ?thesis by simp
  qed
  have c3: "folderId (?k x) = None" if "noteId x \<in> noteId ` set (m # ms)" for x
  proof (cases "noteId x = noteId m")
    case True
    from g(6)[OF h(5)[OF True]] show ?thesis .
  next
    case False
    with that have "noteId (h x) \<in> noteId ` set ms"
      using h(3)[of x] by auto
    from g(5)[OF this] show ?thesis .
  qed
  have c4: "folderId (?k x) = None" if "folderId x = None" for x
    using g(6)[OF h(6)[OF that]] .
  show ?case
    using a b c1 c2 c3 c4 by (intro exI[of _ ?k]) blast
qed

lemma folder_ref_JStr: "folder_ref n = JStr f \<longleftrightarrow> folderId n = Some f"
  by (simp add: folder_ref_def split: option.splits)

lemma deleteFolder_result:
  assumes "folders_has (foldersMap st) (JStr f)"
  shows "fst (deleteFolder now (JStr f) st)"
    and "\<exists>h. notesMap (snd (deleteFolder now (JStr f) st)) = map h (notesMap st)
            \<and> (\<forall>x. noteId (h x) = noteId x
                   \<and> (h x = x \<or> (folderId (h x) = None
                                   \<and> noteId x \<in> noteId ` {n \<in> set (notesMap st). folderId n = Some f}))
                   \<and> (noteId x \<in> noteId ` {n \<in> set (notesMap st). folderId n = Some f}
                        \<longrightarrow> folderId (h x) = None))"
    and "foldersMap (snd (deleteFolder now (JStr f) st)) = filter (\<lambda>x. fId x \<noteq> JStr f) (foldersMap st)"
proof -
  let ?ms = "filter (\<lambda>n. folder_ref n = JStr f) (notesMap st)"
  let ?st1 = "fold (detach_note now) ?ms st"
  have d: "deleteFolder now (JStr f) st
            = (True, saveNotes_from [] now (?st1\<lparr> foldersMap := folders_delete (JStr f) (foldersMap ?st1) \<rparr>))"
    using assms by (simp add: deleteFolder_def Let_def)
  show "fst (deleteFolder now (JStr f) st)"
    unfolding d by simp
  have s: "set ?ms = {n \<in> set (notesMap st). folderId n = Some f}"
    by (auto simp: folder_ref_JStr)
  from fold_detach_note_map[of now ?ms st]
  obtain h where h: "notesMap ?st1 = map h (notesMap st)" "foldersMap ?st1 = foldersMap st"
    "\<forall>x. noteId (h x) = noteId x
         \<and> (h x = x \<or> (folderId (h x) = None \<and> noteId x \<in> noteId ` set ?ms))
         \<and> (noteId x \<in> noteId ` set ?ms \<longrightarrow> folderId (h x) = None)
         \<and> (folderId x = None \<longrightarrow> folderId (h x) = None)"
    by blast
  have "notesMap (snd (deleteFolder now (JStr f) st)) = map h (notesMap st)"
    unfolding d using h(1) by simp
  with h(3) show "\<exists>h. notesMap (snd (deleteFolder now (JStr f) st)) = map h (notesMap st)
            \<and> (\<forall>x. noteId (h x) = noteId x
                   \<and> (h x = x \<or> (folderId (h x) = None
                                   \<and> noteId x \<in> noteId ` {n \<in> set (notesMap st). folderId n = Some f}))
                   \<and> (noteId x \<in> noteId ` {n \<in> set (notesMap st). folderId n = Some f}
                        \<longrightarrow> folderId (h x) = None))"
    unfolding s by blast
  show "foldersMap (snd (deleteFolder now (JStr f) st)) = filter (\<lambda>x. fId x \<noteq> JStr f) (foldersMap st)"
    unfolding d using h(2) by (simp add: folders_delete_def)
qed

text \<open>
  Claim C6. Deleting a folder that exists returns \<open>true\<close>. No note is removed and none
  changes its id or position; every note that referred to the folder now has no folder;
  the notes that did not refer to it are kept as they were (the cache holding one note
  per id); the folder is gone from the folder collection, the other folders are kept;
  and if every folder reference was null or the id of an existing folder before, the
  same holds afterwards.
\<close>

theorem deleteFolder_detaches_members:
  "folders_has (foldersMap st) (JStr f) \<longrightarrow>
     fst (deleteFolder now (JStr f) st)
     \<and> map noteId (notesMap (snd (deleteFolder now (JStr f) st))) = map noteId (notesMap st)
     \<and> (\<forall>n\<in>set (notesMap (snd (deleteFolder now (JStr f) st))). folderId n \<noteq> Some f)
     \<and> (\<forall>n\<in>set (notesMap st). folderId n = Some f \<longrightarrow>
           (\<exists>n'\<in>set (notesMap (snd (deleteFolder now (JStr f) st))).
               noteId n' = noteId n \<and> folderId n' = None))
     \<and> (distinct (map noteId (notesMap st)) \<longrightarrow>
           (\<forall>n\<in>set (notesMap st). folderId n \<noteq> Some f \<longrightarrow>
               n \<in> set (notesMap (snd (deleteFolder now (JStr f) st)))))
     \<and> foldersMap (snd (deleteFolder now (JStr f) st))
         = filter (\<lambda>x. fId x \<noteq> JStr f) (foldersMap st)
     \<and> \<not> folders_has (foldersMap (snd (deleteFolder now (JStr f) st))) (JStr f)
     \<and> ((\<forall>n\<in>set (notesMap st). \<forall>g. folderId n = Some g \<longrightarrow> folders_has (foldersMap st) (JStr g)) \<longrightarrow>
          (\<forall>n\<in>set (notesMap (snd (deleteFolder now (JStr f) st))). \<forall>g.
              folderId n = Some g \<longrightarrow>
              folders_has (foldersMap (snd (deleteFolder now (JStr f) st))) (JStr g)))"
proof (rule impI)
  assume has: "folders_has (foldersMap st) (JStr f)"
  let ?st' = "snd (deleteFolder now (JStr f) st)"
  let ?M = "noteId ` {n \<in> set (notesMap st). folderId n = Some f}"
  note r = deleteFolder_result[OF has, of now]
  from r(2) obtain h where h: "notesMap ?st' = map h (notesMap st)"
    and h1: "\<And>x. noteId (h x) = noteId x"
    and h2: "\<And>x. h x = x \<or> (folderId (h x) = None \<and> noteId x \<in> ?M)"
    and h3: "\<And>x. noteId x \<in> ?M \<Longrightarrow> folderId (h x) = None"
    by blast
  have ids: "map noteId (notesMap ?st') = map noteId (notesMap st)"
    unfolding h using h1 by simp
  have gone: "folderId y \<noteq> Some f" if "y \<in> set (notesMap ?st')" for y
  proof -
    from that obtain x where x: "x \<in> set (notesMap st)" "y = h x"
      unfolding h by auto
    show ?thesis
    proof (cases "folderId x = Some f")
      case True
      with x(1) have "noteId x \<in> ?M" by blast
      from h3[OF this] x(2) show ?thesis by simp
    next
      case False
      with h2[of x] x(2) show ?thesis by auto
    qed
  qed
  have detached: "\<exists>n'\<in>set (notesMap ?st'). noteId n' = noteId n \<and> folderId n' = None"
    if "n \<in> set (notesMap st)" "folderId n = Some f" for n
  proof -
    from that have "noteId n \<in> ?M" by blast
    from h3[OF this] h1[of n] that(1) show ?thesis
      unfolding h by auto
  qed
  have kept: "n \<in> set (notesMap ?st')"
    if dist: "distinct (map noteId (notesMap st))" and n: "n \<in> set (notesMap st)" "folderId n \<noteq> Some f" for n
  proof -
    have "h n = n"
    proof (rule ccontr)
      assume "h n \<noteq> n"
      with h2[of n] have "noteId n \<in> ?M" by auto
      then obtain m where m: "m \<in> set (notesMap st)" "folderId m = Some f" "noteId m = noteId n"
        by auto
      from dist m(1) n(1) m(3) have "m = n"
        by (meson distinct_map inj_onD)
      with m(2) n(2) show False by simp
    qed
    with n(1) show ?thesis
      unfolding h by force
  qed
  have fgone: "\<not> folders_has (foldersMap ?st') (JStr f)"
    unfolding r(3) by (auto simp: folders_has_def)
  have inv: "folders_has (foldersMap ?st') (JStr g)"
    if before: "\<forall>n\<in>set (notesMap st). \<forall>g. folderId n = Some g \<longrightarrow> folders_has (foldersMap st) (JStr g)"
      and y: "y \<in> set (notesMap ?st')" "folderId y = Some g" for y g
  proof -
    from y(1) obtain x where x: "x \<in> set (notesMap st)" "y = h x"
      unfolding h by auto
    from h2[of x] x(2) y(2) have "h x = x" by auto
    with x y(2) before have "folders_has (foldersMap st) (JStr g)" by auto
    moreover from gone[OF y(1)] y(2) have "g \<noteq> f" by auto
    ultimately show ?thesis
      unfolding r(3) by (auto simp: folders_has_def)
  qed
  show "fst (deleteFolder now (JStr f) st)
     \<and> map noteId (notesMap ?st') = map noteId (notesMap st)
     \<and> (\<forall>n\<in>set (notesMap ?st'). folderId n \<noteq> Some f)
     \<and> (\<forall>n\<in>set (notesMap st). folderId n = Some f \<longrightarrow>
           (\<exists>n'\<in>set (notesMap ?st'). noteId n' = noteId n \<and> folderId n' = None))
     \<and> (distinct (map noteId (notesMap st)) \<longrightarrow>
           (\<forall>n\<in>set (notesMap st). folderId n \<noteq> Some f \<longrightarrow> n \<in> set (notesMap ?st')))
     \<and> foldersMap ?st' = filter (\<lambda>x. fId x \<noteq> JStr f) (foldersMap st)
     \<and> \<not> folders_has (foldersMap ?st') (JStr f)
     \<and> ((\<forall>n\<in>set (notesMap st). \<forall>g. folderId n = Some g \<longrightarrow> folders_has (foldersMap st) (JStr g)) \<longrightarrow>
          (\<forall>n\<in>set (notesMap ?st'). \<forall>g.
              folderId n = Some g \<longrightarrow> folders_has (foldersMap ?st') (JStr g)))"
    using r(1) ids gone detached kept r(3) fgone inv
    by (intro conjI impI ballI allI) blast+
qed

lemma folder_repo_fields:
  "notesMap folder_repo = [(sample_note ''a'' ''Plan'' 10 20)\<lparr> folderId := Some ''f1'' \<rparr>,
                      (sample_note ''b'' ''Draft'' 11 21)\<lparr> folderId := Some ''f1'' \<rparr>,
                      (sample_note ''c'' ''List'' 12 22)\<lparr> folderId := Some ''f2'' \<rparr>]"
  "foldersMap folder_repo = [sample_folder ''f1'' ''Work'', sample_folder ''f2'' ''Home'']"
  by (simp_all add: folder_repo_def attached_repo_def empty_repo_def)

text \<open>
  Deleting \<open>f1\<close> from the sample repository: \<open>a\<close>, \<open>b\<close> and \<open>c\<close> are all still cached, none
  refers to \<open>f1\<close>, \<open>c\<close> is unchanged in \<open>f2\<close>, and \<open>f2\<close> is the only folder left.
\<close>

theorem deleteFolder_detaches_members_witness:
  "folders_has (foldersMap folder_repo) (JStr ''f1'')
   \<and> distinct (map noteId (notesMap folder_repo))
   \<and> fst (deleteFolder (\<lambda>k. 50) (JStr ''f1'') folder_repo)
   \<and> map noteId (notesMap (snd (deleteFolder (\<lambda>k. 50) (JStr ''f1'') folder_repo))) = [''a'', ''b'', ''c'']
   \<and> list_all (\<lambda>n. folderId n \<noteq> Some ''f1'') (notesMap (snd (deleteFolder (\<lambda>k. 50) (JStr ''f1'') folder_repo)))
   \<and> (sample_note ''c'' ''List'' 12 22)\<lparr> folderId := Some ''f2'' \<rparr>
        \<in> set (notesMap (snd (deleteFolder (\<lambda>k. 50) (JStr ''f1'') folder_repo)))
   \<and> foldersMap (snd (deleteFolder (\<lambda>k. 50) (JStr ''f1'') folder_repo)) = [sample_folder ''f2'' ''Home'']
   \<and> list_all (\<lambda>n. \<forall>g. folderId n = Some g \<longrightarrow>
                  folders_has (foldersMap (snd (deleteFolder (\<lambda>k. 50) (JStr ''f1'') folder_repo))) (JStr g))
        (notesMap (snd (deleteFolder (\<lambda>k. 50) (JStr ''f1'') folder_repo)))"
proof -
  let ?st' = "snd (deleteFolder (\<lambda>k. 50) (JStr ''f1'') folder_repo)"
  have h1: "folders_has (foldersMap folder_repo) (JStr ''f1'')"
    by (simp add: folder_repo_fields folders_has_def sample_folder_def)
  have h2: "distinct (map noteId (notesMap folder_repo))"
    by (simp add: folder_repo_fields)
  have h3: "\<forall>n\<in>set (notesMap folder_repo). \<forall>g. folderId n = Some g \<longrightarrow>
              folders_has (foldersMap folder_repo) (JStr g)"
    by (simp add: folder_repo_fields folders_has_def sample_folder_def)
  have h4: "(sample_note ''c'' ''List'' 12 22)\<lparr> folderId := Some ''f2'' \<rparr> \<in> set (notesMap folder_repo)
            \<and> folderId ((sample_note ''c'' ''List'' 12 22)\<lparr> folderId := Some ''f2'' \<rparr>) \<noteq> Some ''f1''"
    by (simp add: folder_repo_fields)
  note inst = deleteFolder_detaches_members[of folder_repo "''f1''" "\<lambda>k. 50"]
  from inst h1 have c1: "fst (deleteFolder (\<lambda>k. 50) (JStr ''f1'') folder_repo)"
    and c2: "map noteId (notesMap ?st') = map noteId (notesMap folder_repo)"
    and c3: "\<forall>n\<in>set (notesMap ?st'). folderId n \<noteq> Some ''f1''"
    and c5: "foldersMap ?st' = filter (\<lambda>x. fId x \<noteq> JStr ''f1'') (foldersMap folder_repo)"
    by blast+
  from inst h1 h2 h4 have c4: "(sample_note ''c'' ''List'' 12 22)\<lparr> folderId := Some ''f2'' \<rparr>
        \<in> set (notesMap ?st')"
    by blast
  from inst h1 h3 have c6: "\<forall>n\<in>set (notesMap ?st'). \<forall>g. folderId n = Some g \<longrightarrow>
              folders_has (foldersMap ?st') (JStr g)"
    by blast
  have c2': "map noteId (notesMap ?st') = [''a'', ''b'', ''c'']"
    unfolding c2 by (simp add: folder_repo_fields)
  have c5': "foldersMap ?st' = [sample_folder ''f2'' ''Home'']"
    unfolding c5 by (simp add: folder_repo_fields sample_folder_def)
  from h1 h2 c1 c2' c3 c4 c5' c6 show ?thesis
    unfolding list_all_iff by blast
qed

section \<open>Filtered and sorted queries\<close>


















section \<open>A deleted note stays deleted\<close>

subsection \<open>The open transactions\<close>






subsection \<open>What the repository caches and snapshots\<close>




subsection \<open>A note on its way out stays on its way out\<close>

lemma leaving_settled [simp]: "note_leaving i (st\<lparr> settled := x \<rparr>) = note_leaving i st"
  by (simp add: note_leaving_def)

lemma leaving_saveInProgress [simp]: "note_leaving i (st\<lparr> saveInProgress := x \<rparr>) = note_leaving i st"
  by (simp add: note_leaving_def)

lemma leaving_loadInProgress [simp]: "note_leaving i (st\<lparr> loadInProgress := x \<rparr>) = note_leaving i st"
  by (simp add: note_leaving_def)

lemma leaving_foldersMap [simp]: "note_leaving i (st\<lparr> foldersMap := x \<rparr>) = note_leaving i st"
  by (simp add: note_leaving_def)




















subsection \<open>The order of a delete\<close>








end
